theory Spec2Isabelle
  imports Complex_Main
begin

section \<open>Data model of the Auto-Organize dashboard\<close>

text \<open>
  The organize workflow lives in the \<^verbatim>\<open>Dashboard\<close> component: a handful of
  React state variables and four handlers (\<^verbatim>\<open>handleStartOrganize\<close>,
  \<^verbatim>\<open>handleExecuteOrganize\<close>, \<^verbatim>\<open>handleGenerateRules\<close>,
  \<^verbatim>\<open>resetOrganize\<close>). The interfaces of the component become records; a field
  whose name is used by several interfaces carries a short prefix in all but one of them.
  JavaScript numbers that only count or are passed through are \<open>int\<close>, lengths are
  \<open>nat\<close>, and the confidence score, which is only tested for truthiness and passed on,
  is a \<open>rat\<close>.
\<close>

record ScannedFile =
  filename :: string
  extension :: string
  size_bytes :: int
  path :: string
  modified :: "string option"

record FolderSuggestion =
  folder_path :: string
  folder_name :: string
  sug_files :: "string list"   \<comment> \<open>\<^verbatim>\<open>files\<close>: the file names assigned to the folder\<close>
  reason :: string
  confidence :: "rat option"   \<comment> \<open>\<open>None\<close>: the field is missing or null in the response\<close>
  file_count :: int

record OrganizeResult =
  folders :: "FolderSuggestion list"
  total_files :: int
  total_folders :: int
  clustering_method :: string
  naming_method :: string

record ExistingFolder =
  ef_folder_name :: string
  ef_folder_path :: string
  sample_files :: "string list"
  ef_file_count :: int

record SuggestedRule =
  rule_type :: string
  pattern :: string
  target_folder :: string
  rule_file_count :: int
  rule_confidence :: rat
  description :: string
  selected :: "bool option"   \<comment> \<open>\<^verbatim>\<open>selected?: boolean\<close>\<close>

datatype OrganizeStep = Idle | Scanning | Analyzing | Preview | Executing | Done

text \<open>
  What a handler can throw or catch: the two \<^verbatim>\<open>Error\<close>s that
  \<^verbatim>\<open>handleStartOrganize\<close> raises itself on a response that is not ok, and
  whatever a collaborator call rejects with.
\<close>

datatype error =
  SessionExpired          \<comment> \<open>status 401 of the analyze call\<close>
  | ApiError nat          \<comment> \<open>\<^verbatim>\<open>API error: <status>\<close>\<close>
  | Rejected string       \<comment> \<open>a rejected \<^verbatim>\<open>invoke\<close> or \<^verbatim>\<open>httpFetch\<close>, with its message\<close>

text \<open>
  \<^verbatim>\<open>organizeStatus\<close> is a string built from fixed templates (in Russian, with
  symbols outside ASCII). The model keeps one constructor for each template of the source,
  with the values the template interpolates.
\<close>

datatype status =
  StNone                            \<comment> \<open>the empty string\<close>
  | StScanning                      \<comment> \<open>"scanning the folder"\<close>
  | StFolderEmpty                   \<comment> \<open>"the folder is empty"\<close>
  | StTooManyFiles nat              \<comment> \<open>"too many files (n), at most 5000"\<close>
  | StFoundFiles nat                \<comment> \<open>"found n files, analysis"\<close>
  | StAuthRequired                  \<comment> \<open>"authorisation required, log in again"\<close>
  | StFoundFilesFolders nat nat     \<comment> \<open>"found n files, m folders, analysis"\<close>
  | StExtracting nat nat            \<comment> \<open>"extracting content (k/n)"\<close>
  | StAnalyzing nat                 \<comment> \<open>"analysing n files"\<close>
  | StReady int                     \<comment> \<open>"ready: n folders"\<close>
  | StError error                   \<comment> \<open>"error: <message>"\<close>
  | StMoving                        \<comment> \<open>"moving the files"\<close>
  | StMoved int                     \<comment> \<open>"moved n files"\<close>
  | StMovedWithErrors int nat       \<comment> \<open>"moved n, errors: m"\<close>
  | StNoPatterns                    \<comment> \<open>"no patterns found for rules"\<close>

text \<open>The state variables of the component that the organize workflow reads or writes.\<close>

record session =
  showAutoOrganize :: bool
  selectedFolder :: string
  organizeStep :: OrganizeStep
  organizeStatus :: status
  scannedFiles :: "ScannedFile list"
  organizeResult :: "OrganizeResult option"
  useGeminiNaming :: bool
  useGeminiFull :: bool
  useExistingFolders :: bool
  useContentExtraction :: bool
  customPrompt :: string
  suggestedRules :: "SuggestedRule list"
  showRulesModal :: bool

subsection \<open>Requests and responses of the collaborators\<close>

record ApiFile =
  api_filename :: string
  api_extension :: string
  api_size_bytes :: int
  content_preview :: string
  api_path :: string

record ExtractBody =
  content_bytes :: "nat list"   \<comment> \<open>sent as \<^verbatim>\<open>content_base64\<close>; the encoding is not modelled\<close>
  eb_extension :: string
  eb_filename :: string

record ExtractResponse =
  er_ok :: bool
  er_content_preview :: string

record AnalyzeBody =
  ab_files :: "ApiFile list"
  existing_folders :: "ExistingFolder list"
  use_existing_folders :: bool
  use_gemini_naming :: bool
  use_gemini_full :: bool
  custom_prompt :: string
  min_clusters :: nat
  max_clusters :: nat

record AnalyzeResponse =
  ok :: bool
  status_code :: nat           \<comment> \<open>\<^verbatim>\<open>response.status\<close>\<close>
  data :: OrganizeResult

record MoveOperation =
  source_path :: string
  dest_folder :: string
  mv_filename :: string

record MoveExecutionResult =
  success :: bool
  moved_count :: int
  errors :: "string list"

record LogBody =
  log_filename :: string
  log_source_path :: string
  dest_path :: string
  log_confidence :: rat

record RulesBody =
  rb_folders :: "FolderSuggestion list"
  source_folder :: string

record RulesResponse =
  rr_ok :: bool
  rules :: "SuggestedRule list"

text \<open>
  The awaited calls of the handlers. An http call carries the bearer token it was sent
  with (\<^verbatim>\<open>accessToken || ''\<close>).
\<close>

datatype call =
  InvokeScanFolder string
  | InvokeGetAccessToken
  | InvokeScanExistingFolders string
  | InvokeReadFileContent string nat
  | HttpExtractContent string ExtractBody
  | HttpAnalyze string AnalyzeBody
  | InvokeExecuteFileMoves string "MoveOperation list" bool
  | HttpLogAction string LogBody
  | HttpGenerateRules string RulesBody

text \<open>
  What a handler does, in the order it does it: state setter calls, awaited calls (the
  points where the handler is suspended and another handler can run), console output and
  the refresh of the recent actions that is started without being awaited.
\<close>

datatype effect =
  SetShowAutoOrganize bool
  | SetSelectedFolder string
  | SetOrganizeStep OrganizeStep
  | SetOrganizeStatus status
  | SetScannedFiles "ScannedFile list"
  | SetOrganizeResult "OrganizeResult option"
  | SetSuggestedRules "SuggestedRule list"
  | SetShowRulesModal bool
  | Call call
  | ConsoleWarn
  | ConsoleError
  | LoadRecentActions

text \<open>
  The collaborators, as the answers they give. \<open>Inl\<close> is a rejected promise. The calls
  made once per file or once per logged move are indexed by the position of the file
  (of the move) so that two calls with the same arguments may answer differently.
\<close>

record env =
  scan_folder_for_organize :: "string \<Rightarrow> error + ScannedFile list"
  get_access_token :: "error + string option"
  scan_existing_folders :: "string \<Rightarrow> error + ExistingFolder list"
  read_file_content :: "nat \<Rightarrow> string \<Rightarrow> nat \<Rightarrow> error + nat list"
  extract_content :: "nat \<Rightarrow> ExtractBody \<Rightarrow> error + ExtractResponse"
  analyze :: "AnalyzeBody \<Rightarrow> error + AnalyzeResponse"
  execute_file_moves :: "string \<Rightarrow> MoveOperation list \<Rightarrow> bool \<Rightarrow> error + MoveExecutionResult"
  log_action :: "nat \<Rightarrow> LogBody \<Rightarrow> error option"
  generate_rules :: "RulesBody \<Rightarrow> error + RulesResponse"

section \<open>Running a handler\<close>

fun apply_effect :: "effect \<Rightarrow> session \<Rightarrow> session" where
  "apply_effect (SetShowAutoOrganize b) s = s\<lparr>showAutoOrganize := b\<rparr>"
| "apply_effect (SetSelectedFolder f) s = s\<lparr>selectedFolder := f\<rparr>"
| "apply_effect (SetOrganizeStep st) s = s\<lparr>organizeStep := st\<rparr>"
| "apply_effect (SetOrganizeStatus m) s = s\<lparr>organizeStatus := m\<rparr>"
| "apply_effect (SetScannedFiles fs) s = s\<lparr>scannedFiles := fs\<rparr>"
| "apply_effect (SetOrganizeResult r) s = s\<lparr>organizeResult := r\<rparr>"
| "apply_effect (SetSuggestedRules rs) s = s\<lparr>suggestedRules := rs\<rparr>"
| "apply_effect (SetShowRulesModal b) s = s\<lparr>showRulesModal := b\<rparr>"
| "apply_effect (Call c) s = s"
| "apply_effect ConsoleWarn s = s"
| "apply_effect ConsoleError s = s"
| "apply_effect LoadRecentActions s = s"

fun run :: "effect list \<Rightarrow> session \<Rightarrow> session" where
  "run [] s = s"
| "run (e # es) s = run es (apply_effect e s)"

text \<open>The calls of a trace, in order.\<close>

fun calls :: "effect list \<Rightarrow> call list" where
  "calls [] = []"
| "calls (Call c # es) = c # calls es"
| "calls (e # es) = calls es"

section \<open>\<^verbatim>\<open>handleStartOrganize\<close>\<close>

subsection \<open>Content extraction, in windows of five files\<close>

definition batchSize :: nat where
  "batchSize = 5"

text \<open>\<^verbatim>\<open>xs.slice(a, b)\<close> for \<open>0 \<le> a\<close>: the elements at the positions from \<open>a\<close> up to, not including, \<open>b\<close>.\<close>

definition slice :: "'a list \<Rightarrow> nat \<Rightarrow> nat \<Rightarrow> 'a list" where
  "slice xs a b = drop a (take b xs)"

text \<open>The entry of \<^verbatim>\<open>filesForApi\<close> that the handler starts from for a scanned file.\<close>

definition toApiFile :: "ScannedFile \<Rightarrow> ApiFile" where
  "toApiFile f = \<lparr>api_filename = filename f, api_extension = extension f,
     api_size_bytes = size_bytes f, content_preview = [], api_path = path f\<rparr>"

text \<open>
  One task of a window, for the file at position \<open>fileIdx\<close>: read at most 50000 bytes,
  send them to the extractor when there are any, and keep the preview when the response
  is ok and the preview is not empty. Everything the task throws is caught inside it; the
  result is the preview it assigns, if it assigns one.
\<close>

definition extractOne :: "env \<Rightarrow> nat \<Rightarrow> ScannedFile \<Rightarrow> string option" where
  "extractOne env fileIdx file =
     (case read_file_content env fileIdx (path file) 50000 of
        Inl e \<Rightarrow> None
      | Inr content \<Rightarrow>
          if length content > 0 then
            (case extract_content env fileIdx
                    \<lparr>content_bytes = content, eb_extension = extension file, eb_filename = filename file\<rparr> of
               Inl e \<Rightarrow> None
             | Inr extractResponse \<Rightarrow>
                 if er_ok extractResponse \<and> er_content_preview extractResponse \<noteq> []
                 then Some (er_content_preview extractResponse) else None)
          else None)"

text \<open>
  \<^verbatim>\<open>filesForApi[fileIdx].content_preview = ...\<close>, when the task assigns. The
  position is that of the file in \<^verbatim>\<open>files\<close>, so it is in range; out of range
  the assignment would throw inside the task's \<^verbatim>\<open>try\<close> and change nothing, as
  the list update does.
\<close>

fun storePreview :: "env \<Rightarrow> nat \<times> ScannedFile \<Rightarrow> ApiFile list \<Rightarrow> ApiFile list" where
  "storePreview env (fileIdx, file) filesForApi =
     (case extractOne env fileIdx file of
        None \<Rightarrow> filesForApi
      | Some p \<Rightarrow> filesForApi[fileIdx := (filesForApi ! fileIdx)\<lparr>content_preview := p\<rparr>])"

declare storePreview.simps [simp del]

text \<open>
  The calls of a task. The tasks of a window run concurrently: every task issues its read
  before any of them goes on, so a window's trace lists the reads first and then, file by
  file, what each task does once its read is back (one of the possible completion orders;
  the entries written do not depend on it, since each task writes its own position).
\<close>

fun readCall :: "nat \<times> ScannedFile \<Rightarrow> effect" where
  "readCall (fileIdx, file) = Call (InvokeReadFileContent (path file) 50000)"

fun afterRead :: "env \<Rightarrow> string \<Rightarrow> nat \<times> ScannedFile \<Rightarrow> effect list" where
  "afterRead env accessToken (fileIdx, file) =
     (case read_file_content env fileIdx (path file) 50000 of
        Inl e \<Rightarrow> [ConsoleWarn]
      | Inr content \<Rightarrow>
          if length content > 0 then
            Call (HttpExtractContent accessToken
                    \<lparr>content_bytes = content, eb_extension = extension file, eb_filename = filename file\<rparr>)
            # (case extract_content env fileIdx
                      \<lparr>content_bytes = content, eb_extension = extension file, eb_filename = filename file\<rparr> of
                 Inl e \<Rightarrow> [ConsoleWarn]
               | Inr extractResponse \<Rightarrow> [])
          else [])"

definition batchEffects :: "env \<Rightarrow> string \<Rightarrow> nat \<Rightarrow> ScannedFile list \<Rightarrow> effect list" where
  "batchEffects env accessToken i batch =
     map readCall (enumerate i batch) @ concat (map (afterRead env accessToken) (enumerate i batch))"

text \<open>
  The loop \<^verbatim>\<open>for (let i = 0; i < files.length; i += batchSize)\<close>: the entries after
  the windows from \<open>i\<close> on, and what these windows do, each followed by its progress
  message.
\<close>

function extractLoop ::
  "env \<Rightarrow> string \<Rightarrow> ScannedFile list \<Rightarrow> nat \<Rightarrow> ApiFile list \<Rightarrow> ApiFile list \<times> effect list" where
  "extractLoop env accessToken files i filesForApi =
     (if i < length files then
        (let batch = slice files i (i + batchSize);
             filesForApi' = fold (storePreview env) (enumerate i batch) filesForApi;
             progress = SetOrganizeStatus (StExtracting (min (i + batchSize) (length files)) (length files));
             later = extractLoop env accessToken files (i + batchSize) filesForApi'
         in (fst later, batchEffects env accessToken i batch @ progress # snd later))
      else (filesForApi, []))"
  by pat_completeness auto
termination
  by (relation "measure (\<lambda>(env, accessToken, files, i, filesForApi). length files - i)")
     (auto simp: batchSize_def)

declare extractLoop.simps [simp del]

definition extractionStage ::
  "env \<Rightarrow> session \<Rightarrow> string \<Rightarrow> ScannedFile list \<Rightarrow> ApiFile list \<times> effect list" where
  "extractionStage env s accessToken files =
     (let filesForApi = map toApiFile files in
      if useContentExtraction s then
        (let extracted = extractLoop env accessToken files 0 filesForApi
         in (fst extracted,
             SetOrganizeStatus (StExtracting 0 (length files)) # snd extracted
               @ [SetOrganizeStatus (StAnalyzing (length files))]))
      else (filesForApi, []))"

subsection \<open>The handler\<close>

text \<open>The \<^verbatim>\<open>catch\<close> of the handler.\<close>

definition catchStart :: "error \<Rightarrow> effect list" where
  "catchStart e = [SetOrganizeStatus (StError e), SetOrganizeStep Idle]"

definition authRequired :: "effect list" where
  "authRequired = [SetOrganizeStatus StAuthRequired, SetOrganizeStep Idle]"

text \<open>Step 2: the existing folders, when the option is on; a failure is only logged.\<close>

definition existingFoldersStage ::
  "env \<Rightarrow> session \<Rightarrow> nat \<Rightarrow> ExistingFolder list \<times> effect list" where
  "existingFoldersStage env s n =
     (if useExistingFolders s then
        (case scan_existing_folders env (selectedFolder s) of
           Inl e \<Rightarrow> ([], [Call (InvokeScanExistingFolders (selectedFolder s)), ConsoleWarn])
         | Inr existingFolders \<Rightarrow>
             (existingFolders,
              [Call (InvokeScanExistingFolders (selectedFolder s)),
               SetOrganizeStatus (StFoundFilesFolders n (length existingFolders))]))
      else ([], []))"

definition analyzeBody :: "session \<Rightarrow> ApiFile list \<Rightarrow> ExistingFolder list \<Rightarrow> AnalyzeBody" where
  "analyzeBody s filesForApi existingFolders =
     \<lparr>ab_files = filesForApi, existing_folders = existingFolders,
      use_existing_folders = useExistingFolders s, use_gemini_naming = useGeminiNaming s,
      use_gemini_full = useGeminiFull s, custom_prompt = customPrompt s,
      min_clusters = 3, max_clusters = 15\<rparr>"

text \<open>What the handler does once the analyze call is back.\<close>

definition afterAnalyze :: "env \<Rightarrow> AnalyzeBody \<Rightarrow> effect list" where
  "afterAnalyze env body =
     (case analyze env body of
        Inl e \<Rightarrow> catchStart e
      | Inr response \<Rightarrow>
          if \<not> ok response then
            (if status_code response = 401 then catchStart SessionExpired
             else catchStart (ApiError (status_code response)))
          else [SetOrganizeResult (Some (data response)),
                SetOrganizeStep Preview,
                SetOrganizeStatus (StReady (total_folders (data response)))])"

definition analyzeStage :: "env \<Rightarrow> string \<Rightarrow> AnalyzeBody \<Rightarrow> effect list" where
  "analyzeStage env accessToken body =
     Call (HttpAnalyze accessToken body) # afterAnalyze env body"

text \<open>The body of the analyze request that the handler sends for the scanned \<open>files\<close>.\<close>

definition analyzeRequest :: "env \<Rightarrow> session \<Rightarrow> string \<Rightarrow> ScannedFile list \<Rightarrow> AnalyzeBody" where
  "analyzeRequest env s accessToken files =
     analyzeBody s (fst (extractionStage env s accessToken files))
       (fst (existingFoldersStage env s (length files)))"

definition afterToken :: "env \<Rightarrow> session \<Rightarrow> ScannedFile list \<Rightarrow> string \<Rightarrow> effect list" where
  "afterToken env s files accessToken =
     snd (existingFoldersStage env s (length files))
     @ snd (extractionStage env s accessToken files)
     @ analyzeStage env accessToken (analyzeRequest env s accessToken files)"

text \<open>
  The handler, run with the state \<open>s\<close> of the render it was created in: the values it
  reads (\<^verbatim>\<open>selectedFolder\<close> and the options) are those of \<open>s\<close> for the whole run,
  also when a setter changes the state meanwhile.
\<close>

definition handleStartOrganize :: "env \<Rightarrow> session \<Rightarrow> effect list" where
  "handleStartOrganize env s =
     (if selectedFolder s = [] then []
      else
        [SetOrganizeStep Scanning, SetOrganizeStatus StScanning,
         Call (InvokeScanFolder (selectedFolder s))]
        @ (case scan_folder_for_organize env (selectedFolder s) of
             Inl e \<Rightarrow> catchStart e
           | Inr files \<Rightarrow>
               if length files = 0 then [SetOrganizeStatus StFolderEmpty, SetOrganizeStep Idle]
               else if length files > 5000 then
                 [SetOrganizeStatus (StTooManyFiles (length files)), SetOrganizeStep Idle]
               else
                 [SetScannedFiles files, SetOrganizeStatus (StFoundFiles (length files)),
                  SetOrganizeStep Analyzing, Call InvokeGetAccessToken]
                 @ (case get_access_token env of
                      Inl e \<Rightarrow> catchStart e
                    | Inr None \<Rightarrow> authRequired
                    | Inr (Some accessToken) \<Rightarrow>
                        if accessToken = [] then authRequired
                        else afterToken env s files accessToken)))"

section \<open>\<^verbatim>\<open>resetOrganize\<close>\<close>




text \<open>The calls of the extraction stage (the read and the extractor) and the analyze call.\<close>

fun isAnalysisOrExtraction :: "effect \<Rightarrow> bool" where
  "isAnalysisOrExtraction (Call (HttpAnalyze t b)) = True"
| "isAnalysisOrExtraction (Call (HttpExtractContent t b)) = True"
| "isAnalysisOrExtraction (Call (InvokeReadFileContent p n)) = True"
| "isAnalysisOrExtraction e = False"

text \<open>The calls that go over the network.\<close>

fun isRemote :: "call \<Rightarrow> bool" where
  "isRemote (HttpExtractContent t b) = True"
| "isRemote (HttpAnalyze t b) = True"
| "isRemote (HttpLogAction t b) = True"
| "isRemote (HttpGenerateRules t b) = True"
| "isRemote c = False"

section \<open>\<^verbatim>\<open>handleExecuteOrganize\<close>\<close>

text \<open>
  The move actions: for every folder and every file name in it, the first scanned file
  of that name gives the source path (\<^verbatim>\<open>file?.path || ''\<close>); the actions with an
  empty source path are filtered out.
\<close>

definition buildMoves :: "ScannedFile list \<Rightarrow> OrganizeResult \<Rightarrow> MoveOperation list" where
  "buildMoves scanned r =
     concat (map (\<lambda>folder.
        filter (\<lambda>m. source_path m \<noteq> [])
          (map (\<lambda>name.
             \<lparr>source_path = (case find (\<lambda>f. filename f = name) scanned of
                                None \<Rightarrow> [] | Some file \<Rightarrow> path file),
              dest_folder = folder_path folder,
              mv_filename = name\<rparr>) (sug_files folder))) (folders r))"

definition backslash :: string where
  "backslash = [CHR 0x5C]"

text \<open>\<^verbatim>\<open>folder.confidence || 0.9\<close>: the default replaces every falsy value.\<close>

definition logConfidence :: "FolderSuggestion \<Rightarrow> rat" where
  "logConfidence folder =
     (case confidence folder of None \<Rightarrow> 9 / 10 | Some c \<Rightarrow> if c = 0 then 9 / 10 else c)"

definition logBody :: "session \<Rightarrow> FolderSuggestion \<Rightarrow> string \<Rightarrow> ScannedFile \<Rightarrow> LogBody" where
  "logBody s folder name file =
     \<lparr>log_filename = filename file, log_source_path = path file,
      dest_path = selectedFolder s @ backslash @ folder_path folder @ backslash @ name,
      log_confidence = logConfidence folder\<rparr>"

text \<open>
  The two nested loops of the logging: the (folder, file name) pairs in order, each with
  the scanned file found for the name; a name with no scanned file is skipped.
\<close>

definition logTargets ::
  "ScannedFile list \<Rightarrow> OrganizeResult \<Rightarrow> (FolderSuggestion \<times> string \<times> ScannedFile) list" where
  "logTargets scanned r =
     concat (map (\<lambda>folder.
        concat (map (\<lambda>name.
           (case find (\<lambda>f. filename f = name) scanned of
              None \<Rightarrow> [] | Some file \<Rightarrow> [(folder, name, file)])) (sug_files folder))) (folders r))"

text \<open>One awaited log call, the \<open>n\<close>-th of the loop, inside its own \<^verbatim>\<open>try\<close>.\<close>

fun logOne ::
  "env \<Rightarrow> session \<Rightarrow> string \<Rightarrow> nat \<times> FolderSuggestion \<times> string \<times> ScannedFile \<Rightarrow> effect list" where
  "logOne env s accessToken (n, folder, name, file) =
     Call (HttpLogAction accessToken (logBody s folder name file))
     # (case log_action env n (logBody s folder name file) of
          None \<Rightarrow> [] | Some e \<Rightarrow> [ConsoleWarn])"

definition logActions :: "env \<Rightarrow> session \<Rightarrow> string \<Rightarrow> OrganizeResult \<Rightarrow> effect list" where
  "logActions env s accessToken r =
     concat (map (logOne env s accessToken) (enumerate 0 (logTargets (scannedFiles s) r)))"

text \<open>The \<^verbatim>\<open>catch\<close> of the handler.\<close>

definition catchExecute :: "error \<Rightarrow> effect list" where
  "catchExecute e = [SetOrganizeStatus (StError e), SetOrganizeStep Preview]"

definition handleExecuteOrganize :: "env \<Rightarrow> session \<Rightarrow> effect list" where
  "handleExecuteOrganize env s =
     (case organizeResult s of
        None \<Rightarrow> []
      | Some r \<Rightarrow>
          if selectedFolder s = [] then []
          else
            [SetOrganizeStep Executing, SetOrganizeStatus StMoving,
             Call (InvokeExecuteFileMoves (selectedFolder s) (buildMoves (scannedFiles s) r) True)]
            @ (case execute_file_moves env (selectedFolder s) (buildMoves (scannedFiles s) r) True of
                 Inl e \<Rightarrow> catchExecute e
               | Inr result \<Rightarrow>
                   if success result \<or> moved_count result > 0 then
                     Call InvokeGetAccessToken
                     # (case get_access_token env of
                          Inl e \<Rightarrow> catchExecute e
                        | Inr accessToken \<Rightarrow>
                            (case accessToken of
                               None \<Rightarrow> []
                             | Some t \<Rightarrow>
                                 if t = [] then []
                                 else logActions env s t r @ [LoadRecentActions])
                            @ [SetOrganizeStatus (StMoved (moved_count result)),
                               SetOrganizeStep Done])
                   else
                     [SetOrganizeStatus (StMovedWithErrors (moved_count result) (length (errors result))),
                      SetOrganizeStep Done]))"

section \<open>\<^verbatim>\<open>handleGenerateRules\<close>\<close>

definition rulesBody :: "session \<Rightarrow> OrganizeResult \<Rightarrow> RulesBody" where
  "rulesBody s r = \<lparr>rb_folders = folders r, source_folder = selectedFolder s\<rparr>"

text \<open>\<^verbatim>\<open>accessToken || ''\<close>.\<close>

definition bearer :: "string option \<Rightarrow> string" where
  "bearer accessToken = (case accessToken of None \<Rightarrow> [] | Some t \<Rightarrow> t)"

definition handleGenerateRules :: "env \<Rightarrow> session \<Rightarrow> effect list" where
  "handleGenerateRules env s =
     (case organizeResult s of
        None \<Rightarrow> []
      | Some r \<Rightarrow>
          Call InvokeGetAccessToken
          # (case get_access_token env of
               Inl e \<Rightarrow> [ConsoleError]
             | Inr accessToken \<Rightarrow>
                 Call (HttpGenerateRules (bearer accessToken) (rulesBody s r))
                 # (case generate_rules env (rulesBody s r) of
                      Inl e \<Rightarrow> [ConsoleError]
                    | Inr response \<Rightarrow>
                        if rr_ok response \<and> length (rules response) > 0 then
                          [SetSuggestedRules (map (\<lambda>r. r\<lparr>selected := Some True\<rparr>) (rules response)),
                           SetShowRulesModal True]
                        else [SetOrganizeStatus StNoPatterns])))"

section \<open>Notions used in the statements and proofs\<close>

text \<open>The effects that leave every state variable but the status message alone.\<close>

fun statusOnly :: "effect \<Rightarrow> bool" where
  "statusOnly (SetOrganizeStatus m) = True"
| "statusOnly (Call c) = True"
| "statusOnly ConsoleWarn = True"
| "statusOnly ConsoleError = True"
| "statusOnly LoadRecentActions = True"
| "statusOnly e = False"

fun isAnalyzeCall :: "call \<Rightarrow> bool" where
  "isAnalyzeCall (HttpAnalyze t b) = True"
| "isAnalyzeCall c = False"

text \<open>The entry \<open>a\<close> of the file at position \<open>k\<close> once its task has run.\<close>

definition filled :: "env \<Rightarrow> nat \<Rightarrow> ScannedFile \<Rightarrow> ApiFile \<Rightarrow> ApiFile" where
  "filled env k file a =
     (case extractOne env k file of None \<Rightarrow> a | Some p \<Rightarrow> a\<lparr>content_preview := p\<rparr>)"

text \<open>The effects that leave every state variable alone.\<close>

fun noWrite :: "effect \<Rightarrow> bool" where
  "noWrite (Call c) = True"
| "noWrite ConsoleWarn = True"
| "noWrite ConsoleError = True"
| "noWrite LoadRecentActions = True"
| "noWrite e = False"

fun isLogCall :: "call \<Rightarrow> bool" where
  "isLogCall (HttpLogAction t b) = True"
| "isLogCall c = False"

fun isMoveCall :: "call \<Rightarrow> bool" where
  "isMoveCall (InvokeExecuteFileMoves b ms c) = True"
| "isMoveCall c = False"

text \<open>
  A file name resolves when the first scanned file of that name has a path that is not
  empty: then \<^verbatim>\<open>file?.path || ''\<close> is a source path and the move survives the
  filter.
\<close>

definition resolves :: "ScannedFile list \<Rightarrow> string \<Rightarrow> bool" where
  "resolves scanned name =
     (case find (\<lambda>f. filename f = name) scanned of None \<Rightarrow> False | Some file \<Rightarrow> path file \<noteq> [])"

text \<open>The (folder, file name) pairs of a result, in the order the loops visit them.\<close>

definition pairs :: "OrganizeResult \<Rightarrow> (FolderSuggestion \<times> string) list" where
  "pairs r = concat (map (\<lambda>folder. map (\<lambda>name. (folder, name)) (sug_files folder)) (folders r))"

text \<open>The result with the file names that do not resolve removed from every folder.\<close>

definition dropUnresolved :: "ScannedFile list \<Rightarrow> OrganizeResult \<Rightarrow> OrganizeResult" where
  "dropUnresolved scanned r =
     r\<lparr>folders := map (\<lambda>folder. folder\<lparr>sug_files := filter (resolves scanned) (sug_files folder)\<rparr>)
                     (folders r)\<rparr>"

text \<open>
  The status and the step that an execution ends with, read off the answers of the move
  call and of the token call.
\<close>

definition executeOutcome :: "env \<Rightarrow> string \<Rightarrow> MoveOperation list \<Rightarrow> status \<times> OrganizeStep" where
  "executeOutcome env folder moves =
     (case execute_file_moves env folder moves True of
        Inl e \<Rightarrow> (StError e, Preview)
      | Inr result \<Rightarrow>
          if success result \<or> moved_count result > 0 then
            (case get_access_token env of
               Inl e \<Rightarrow> (StError e, Preview)
             | Inr t \<Rightarrow> (StMoved (moved_count result), Done))
          else (StMovedWithErrors (moved_count result) (length (errors result)), Done))"


section \<open>Example sessions\<close>

text \<open>
  A folder \<^verbatim>\<open>/d\<close> with three files, a clustering of them into two folders that
  also names a file \<^verbatim>\<open>d.txt\<close> that was never scanned, and collaborators that
  answer every call; the read of the second file is refused.
\<close>

definition fileA :: ScannedFile where
  "fileA = \<lparr>filename = ''a.pdf'', extension = ''pdf'', size_bytes = 10,
     path = ''/d/a.pdf'', modified = None\<rparr>"

definition fileB :: ScannedFile where
  "fileB = \<lparr>filename = ''b.jpg'', extension = ''jpg'', size_bytes = 20,
     path = ''/d/b.jpg'', modified = None\<rparr>"

definition fileC :: ScannedFile where
  "fileC = \<lparr>filename = ''c.txt'', extension = ''txt'', size_bytes = 30,
     path = ''/d/c.txt'', modified = None\<rparr>"

definition docs :: FolderSuggestion where
  "docs = \<lparr>folder_path = ''Docs'', folder_name = ''Docs'',
     sug_files = [''a.pdf'', ''c.txt'', ''d.txt''], reason = ''documents'',
     confidence = Some (4 / 5), file_count = 3\<rparr>"

definition images :: FolderSuggestion where
  "images = \<lparr>folder_path = ''Images'', folder_name = ''Images'',
     sug_files = [''b.jpg''], reason = ''pictures'', confidence = None, file_count = 1\<rparr>"

definition exResult :: OrganizeResult where
  "exResult = \<lparr>folders = [docs, images], total_files = 3, total_folders = 2,
     clustering_method = ''kmeans'', naming_method = ''gemini''\<rparr>"

definition exRule :: SuggestedRule where
  "exRule = \<lparr>rule_type = ''extension'', pattern = ''pdf'', target_folder = ''Docs'',
     rule_file_count = 1, rule_confidence = 1, description = ''pdf files'', selected = None\<rparr>"

text \<open>The state after the card was opened and the folder chosen.\<close>

definition exSession :: session where
  "exSession = \<lparr>showAutoOrganize = True, selectedFolder = ''/d'', organizeStep = Idle,
     organizeStatus = StNone, scannedFiles = [], organizeResult = None,
     useGeminiNaming = True, useGeminiFull = False, useExistingFolders = True,
     useContentExtraction = False, customPrompt = [], suggestedRules = [],
     showRulesModal = False\<rparr>"

text \<open>The state in the preview of \<open>exResult\<close>.\<close>

definition exPreview :: session where
  "exPreview = exSession\<lparr>organizeStep := Preview, organizeStatus := StReady 2,
     scannedFiles := [fileA, fileB, fileC], organizeResult := Some exResult\<rparr>"

definition exEnv :: env where
  "exEnv = \<lparr>scan_folder_for_organize = (\<lambda>p. Inr [fileA, fileB, fileC]),
     get_access_token = Inr (Some ''token''),
     scan_existing_folders = (\<lambda>p. Inr []),
     read_file_content = (\<lambda>i p n. if i = 1 then Inl (Rejected ''denied'') else Inr [37, 80]),
     extract_content = (\<lambda>i b. Inr \<lparr>er_ok = True, er_content_preview = ''text''\<rparr>),
     analyze = (\<lambda>b. Inr \<lparr>ok = True, status_code = 200, data = exResult\<rparr>),
     execute_file_moves =
       (\<lambda>b ms c. Inr \<lparr>success = True, moved_count = int (length ms), errors = []\<rparr>),
     log_action = (\<lambda>n b. None),
     generate_rules = (\<lambda>b. Inr \<lparr>rr_ok = True, rules = [exRule]\<rparr>)\<rparr>"

text \<open>The same collaborators, but the scan finds 5001 files.\<close>

definition crowdedEnv :: env where
  "crowdedEnv = exEnv\<lparr>scan_folder_for_organize := (\<lambda>p. Inr (replicate 5001 fileA))\<rparr>"

text \<open>
  No access token; the analysis answers 401; the move call throws; the move call reports
  no success and no moved file; no rule is found.
\<close>

definition tokenlessEnv :: env where
  "tokenlessEnv = exEnv\<lparr>get_access_token := Inr None\<rparr>"

definition expiredEnv :: env where
  "expiredEnv = exEnv\<lparr>analyze := (\<lambda>b. Inr \<lparr>ok = False, status_code = 401, data = exResult\<rparr>)\<rparr>"

definition brokenMoveEnv :: env where
  "brokenMoveEnv = exEnv\<lparr>execute_file_moves := (\<lambda>b ms c. Inl (Rejected ''disk full''))\<rparr>"

definition failedMoveEnv :: env where
  "failedMoveEnv = exEnv\<lparr>execute_file_moves :=
     (\<lambda>b ms c. Inr \<lparr>success = False, moved_count = 0, errors = [''access denied'']\<rparr>)\<rparr>"

definition noRulesEnv :: env where
  "noRulesEnv = exEnv\<lparr>generate_rules := (\<lambda>b. Inr \<lparr>rr_ok = True, rules = []\<rparr>)\<rparr>"

text \<open>The state after the moves of \<open>exResult\<close> were made.\<close>

definition exDone :: session where
  "exDone = exPreview\<lparr>organizeStep := Done, organizeStatus := StMoved 3\<rparr>"

text \<open>The first state with content extraction switched on.\<close>

definition exExtract :: session where
  "exExtract = exSession\<lparr>useContentExtraction := True\<rparr>"

text \<open>The second log call fails.\<close>

definition flakyLogEnv :: env where
  "flakyLogEnv = exEnv\<lparr>log_action := (\<lambda>n b. if n = 1 then Some (Rejected ''offline'') else None)\<rparr>"

section \<open>Running traces\<close>

lemma run_append: "run (xs @ ys) s = run ys (run xs s)"
  by (induction xs arbitrary: s) auto

lemma run_statusOnly:
  assumes "\<forall>e\<in>set es. statusOnly e"
  shows "organizeStep (run es s) = organizeStep s"
    and "scannedFiles (run es s) = scannedFiles s"
    and "organizeResult (run es s) = organizeResult s"
    and "selectedFolder (run es s) = selectedFolder s"
    and "showAutoOrganize (run es s) = showAutoOrganize s"
    and "suggestedRules (run es s) = suggestedRules s"
    and "showRulesModal (run es s) = showRulesModal s"
  using assms
proof (induction es arbitrary: s)
  case Nil
  {
    case 1 show ?case by simp
  next
    case 2 show ?case by simp
  next
    case 3 show ?case by simp
  next
    case 4 show ?case by simp
  next
    case 5 show ?case by simp
  next
    case 6 show ?case by simp
  next
    case 7 show ?case by simp
  }
next
  case (Cons e es)
  {
    case 1 then show ?case using Cons.IH(1) [of "apply_effect e s"] by (cases e) auto
  next
    case 2 then show ?case using Cons.IH(2) [of "apply_effect e s"] by (cases e) auto
  next
    case 3 then show ?case using Cons.IH(3) [of "apply_effect e s"] by (cases e) auto
  next
    case 4 then show ?case using Cons.IH(4) [of "apply_effect e s"] by (cases e) auto
  next
    case 5 then show ?case using Cons.IH(5) [of "apply_effect e s"] by (cases e) auto
  next
    case 6 then show ?case using Cons.IH(6) [of "apply_effect e s"] by (cases e) auto
  next
    case 7 then show ?case using Cons.IH(7) [of "apply_effect e s"] by (cases e) auto
  }
qed

lemma statusOnly_existing: "\<forall>e\<in>set (snd (existingFoldersStage env s n)). statusOnly e"
  by (auto simp: existingFoldersStage_def split: sum.splits)

lemma statusOnly_afterRead: "\<forall>e\<in>set (afterRead env t x). statusOnly e"
  by (cases x) (auto split: sum.splits)

lemma statusOnly_batch: "\<forall>e\<in>set (batchEffects env t i batch). statusOnly e"
  using statusOnly_afterRead by (fastforce simp: batchEffects_def)

lemma statusOnly_extractLoop: "\<forall>e\<in>set (snd (extractLoop env t files i acc)). statusOnly e"
proof (induction env t files i acc rule: extractLoop.induct)
  case (1 env t files i acc)
  show ?case
  proof (cases "i < length files")
    case True
    then show ?thesis
      using "1.IH" [OF True refl refl refl] statusOnly_batch [of env t i]
      by (subst extractLoop.simps) (auto simp: Let_def)
  next
    case False
    then show ?thesis by (subst extractLoop.simps) simp
  qed
qed

lemma statusOnly_extraction: "\<forall>e\<in>set (snd (extractionStage env s t files)). statusOnly e"
  using statusOnly_extractLoop [of env t files 0] by (auto simp: extractionStage_def Let_def)

lemma calls_append: "calls (xs @ ys) = calls xs @ calls ys"
  by (induction xs rule: calls.induct) auto

section \<open>Pre-flight validation\<close>

text \<open>
  Claim C4. When the scan of a started session returns no file or more than 5000 files,
  the handler ends in step \<open>Idle\<close> with the validation message for that case, and the
  scan is the only call it makes: nothing goes over the network.
\<close>

theorem start_validation_failure:
  assumes "selectedFolder s \<noteq> []"
    and "scan_folder_for_organize env (selectedFolder s) = Inr files"
    and "files = [] \<or> 5000 < length files"
  shows "organizeStep (run (handleStartOrganize env s) s) = Idle
    \<and> organizeStatus (run (handleStartOrganize env s) s)
        = (if files = [] then StFolderEmpty else StTooManyFiles (length files))
    \<and> calls (handleStartOrganize env s) = [InvokeScanFolder (selectedFolder s)]
    \<and> filter isRemote (calls (handleStartOrganize env s)) = []"
  using assms by (auto simp: handleStartOrganize_def)

theorem start_validation_failure_witness:
  "selectedFolder exSession \<noteq> []
   \<and> scan_folder_for_organize crowdedEnv (selectedFolder exSession) = Inr (replicate 5001 fileA)
   \<and> 5000 < length (replicate 5001 fileA)
   \<and> organizeStep (run (handleStartOrganize crowdedEnv exSession) exSession) = Idle
   \<and> organizeStatus (run (handleStartOrganize crowdedEnv exSession) exSession) = StTooManyFiles 5001
   \<and> calls (handleStartOrganize crowdedEnv exSession) = [InvokeScanFolder ''/d'']
   \<and> filter isRemote (calls (handleStartOrganize crowdedEnv exSession)) = []"
  using start_validation_failure [of exSession crowdedEnv "replicate 5001 fileA"]
  by (simp add: exSession_def crowdedEnv_def exEnv_def)

section \<open>Authentication\<close>

text \<open>
  Claim C2, as stated, fails: the token is asked for only after the scan, so a start with
  no token does call the scan. Here the token is absent and the trace holds the scan call.
\<close>

theorem start_without_token_scans:
  "get_access_token tokenlessEnv = Inr None
   \<and> InvokeScanFolder ''/d'' \<in> set (calls (handleStartOrganize tokenlessEnv exSession))"
  by (simp add: tokenlessEnv_def exEnv_def exSession_def handleStartOrganize_def authRequired_def
      fileA_def)

text \<open>
  Claim C2, amended. When the scan of a started session returns between 1 and 5000 files
  and no access token is available (it is null or the empty string), the handler ends in
  step \<open>Idle\<close> with the authorisation message; it has made the scan call and the token
  call and nothing else, so no analyze call and no call over the network.
\<close>

theorem start_without_token_after_scan:
  assumes "selectedFolder s \<noteq> []"
    and "scan_folder_for_organize env (selectedFolder s) = Inr files"
    and "files \<noteq> []" and "length files \<le> 5000"
    and "get_access_token env = Inr accessToken"
    and "accessToken = None \<or> accessToken = Some []"
  shows "organizeStep (run (handleStartOrganize env s) s) = Idle
    \<and> organizeStatus (run (handleStartOrganize env s) s) = StAuthRequired
    \<and> calls (handleStartOrganize env s) = [InvokeScanFolder (selectedFolder s), InvokeGetAccessToken]
    \<and> filter isRemote (calls (handleStartOrganize env s)) = []"
  using assms by (auto simp: handleStartOrganize_def authRequired_def)


theorem start_without_token_after_scan_witness:
  "selectedFolder exSession \<noteq> []
   \<and> scan_folder_for_organize tokenlessEnv (selectedFolder exSession) = Inr [fileA, fileB, fileC]
   \<and> get_access_token tokenlessEnv = Inr None
   \<and> organizeStep (run (handleStartOrganize tokenlessEnv exSession) exSession) = Idle
   \<and> organizeStatus (run (handleStartOrganize tokenlessEnv exSession) exSession) = StAuthRequired
   \<and> calls (handleStartOrganize tokenlessEnv exSession) = [InvokeScanFolder ''/d'', InvokeGetAccessToken]
   \<and> filter isRemote (calls (handleStartOrganize tokenlessEnv exSession)) = []"
  using start_without_token_after_scan [of exSession tokenlessEnv "[fileA, fileB, fileC]" None]
  by (simp add: exSession_def tokenlessEnv_def exEnv_def)

text \<open>
  Claim C3, as stated, fails: the \<^verbatim>\<open>catch\<close> sets the status and the step and
  nothing else, so after a 401 the scanned files are still stored.
\<close>

theorem analyze_unauthorized_scan_not_emptied:
  "organizeStatus (run (handleStartOrganize expiredEnv exSession) exSession) = StError SessionExpired
   \<and> scannedFiles (run (handleStartOrganize expiredEnv exSession) exSession) = [fileA, fileB, fileC]
   \<and> scannedFiles (run (handleStartOrganize expiredEnv exSession) exSession) \<noteq> []"
  by (simp add: expiredEnv_def exEnv_def exSession_def handleStartOrganize_def afterToken_def
      analyzeStage_def afterAnalyze_def analyzeRequest_def catchStart_def existingFoldersStage_def
      extractionStage_def run_append)

text \<open>
  Claim C3, amended. When the analyze call of a session answers with status 401, the
  handler ends in step \<open>Idle\<close> with the session-expired message; no result is stored,
  and the scanned-file list is kept as the scan returned it.
\<close>

theorem analyze_unauthorized_keeps_scan:
  assumes "selectedFolder s \<noteq> []"
    and "scan_folder_for_organize env (selectedFolder s) = Inr files"
    and "files \<noteq> []" and "length files \<le> 5000"
    and "get_access_token env = Inr (Some accessToken)" and "accessToken \<noteq> []"
    and "analyze env (analyzeRequest env s accessToken files) = Inr response"
    and "\<not> ok response" and "status_code response = 401"
  shows "organizeStep (run (handleStartOrganize env s) s) = Idle
    \<and> organizeStatus (run (handleStartOrganize env s) s) = StError SessionExpired
    \<and> scannedFiles (run (handleStartOrganize env s) s) = files
    \<and> organizeResult (run (handleStartOrganize env s) s) = organizeResult s"
  using assms
  by (simp add: handleStartOrganize_def afterToken_def analyzeStage_def afterAnalyze_def catchStart_def
      run_append run_statusOnly statusOnly_existing statusOnly_extraction)


theorem analyze_unauthorized_keeps_scan_witness:
  "selectedFolder exSession \<noteq> []
   \<and> scan_folder_for_organize expiredEnv (selectedFolder exSession) = Inr [fileA, fileB, fileC]
   \<and> get_access_token expiredEnv = Inr (Some ''token'')
   \<and> analyze expiredEnv (analyzeRequest expiredEnv exSession ''token'' [fileA, fileB, fileC])
        = Inr \<lparr>ok = False, status_code = 401, data = exResult\<rparr>
   \<and> organizeStep (run (handleStartOrganize expiredEnv exSession) exSession) = Idle
   \<and> organizeStatus (run (handleStartOrganize expiredEnv exSession) exSession) = StError SessionExpired
   \<and> scannedFiles (run (handleStartOrganize expiredEnv exSession) exSession) = [fileA, fileB, fileC]
   \<and> organizeResult (run (handleStartOrganize expiredEnv exSession) exSession) = None"
  using analyze_unauthorized_keeps_scan [of exSession expiredEnv "[fileA, fileB, fileC]" "''token''"
      "\<lparr>ok = False, status_code = 401, data = exResult\<rparr>"]
  by (simp add: exSession_def expiredEnv_def exEnv_def)

section \<open>Content extraction\<close>

text \<open>
  A window changes the entries of its own files and no other; the loop visits every
  position once.
\<close>

lemma length_storePreview: "length (storePreview env x acc) = length acc"
  by (cases x) (simp add: storePreview.simps split: option.splits)

lemma length_fold_storePreview: "length (fold (storePreview env) xs acc) = length acc"
  by (induction xs arbitrary: acc) (simp_all add: length_storePreview)

lemma storePreview_nth:
  "k < length acc \<Longrightarrow>
   storePreview env (i, file) acc ! k = (if k = i then filled env i file (acc ! k) else acc ! k)"
  by (simp add: storePreview.simps filled_def split: option.splits)

lemma fold_storePreview_nth:
  "k < length acc \<Longrightarrow>
   fold (storePreview env) (enumerate i batch) acc ! k
     = (if i \<le> k \<and> k < i + length batch then filled env k (batch ! (k - i)) (acc ! k) else acc ! k)"
proof (induction batch arbitrary: i acc)
  case Nil
  then show ?case by auto
next
  case (Cons f batch)
  have len: "k < length (storePreview env (i, f) acc)"
    using Cons.prems by (simp add: length_storePreview)
  show ?case
  proof (cases "k = i")
    case True
    then show ?thesis
      using Cons.IH [OF len, of "Suc i"] Cons.prems by (simp add: storePreview_nth)
  next
    case False
    then show ?thesis
      using Cons.IH [OF len, of "Suc i"] Cons.prems
      by (auto simp: storePreview_nth nth_Cons' Suc_diff_le)
  qed
qed

lemma length_slice: "length (slice xs a b) = min b (length xs) - a"
  by (simp add: slice_def)

lemma slice_nth: "a \<le> k \<Longrightarrow> k < b \<Longrightarrow> k < length xs \<Longrightarrow> slice xs a b ! (k - a) = xs ! k"
  by (simp add: slice_def)

lemma length_extractLoop: "length (fst (extractLoop env t files i acc)) = length acc"
proof (induction env t files i acc rule: extractLoop.induct)
  case (1 env t files i acc)
  show ?case
  proof (cases "i < length files")
    case True
    then show ?thesis
      using "1.IH" [OF True refl refl refl]
      by (subst extractLoop.simps) (simp add: Let_def length_fold_storePreview)
  next
    case False
    then show ?thesis by (subst extractLoop.simps) simp
  qed
qed

lemma extractLoop_nth:
  "length acc = length files \<Longrightarrow> k < length files \<Longrightarrow>
   fst (extractLoop env t files i acc) ! k
     = (if i \<le> k then filled env k (files ! k) (acc ! k) else acc ! k)"
proof (induction env t files i acc rule: extractLoop.induct)
  case (1 env t files i acc)
  show ?case
  proof (cases "i < length files")
    case True
    let ?batch = "slice files i (i + batchSize)"
    let ?acc' = "fold (storePreview env) (enumerate i ?batch) acc"
    have len: "length ?acc' = length files"
      using "1.prems" by (simp add: length_fold_storePreview)
    have kacc: "k < length acc" using "1.prems" by simp
    have step: "fst (extractLoop env t files i acc) = fst (extractLoop env t files (i + batchSize) ?acc')"
      using True by (subst extractLoop.simps) (simp add: Let_def)
    have ih: "fst (extractLoop env t files (i + batchSize) ?acc') ! k
        = (if i + batchSize \<le> k then filled env k (files ! k) (?acc' ! k) else ?acc' ! k)"
      using "1.IH" [OF True refl refl refl len "1.prems"(2)] .
    have win: "?acc' ! k
        = (if i \<le> k \<and> k < i + batchSize then filled env k (files ! k) (acc ! k) else acc ! k)"
      using "1.prems"(2) True
      by (auto simp: fold_storePreview_nth [OF kacc] length_slice slice_nth)
    show ?thesis
      unfolding step ih win by (auto simp: batchSize_def)
  next
    case False
    then show ?thesis
      using "1.prems" by (subst extractLoop.simps) simp
  qed
qed

lemma enumerate_readCall:
  "k < length batch \<Longrightarrow> Call (InvokeReadFileContent (path (batch ! k)) 50000) \<in> set (map readCall (enumerate i batch))"
proof -
  assume k: "k < length batch"
  then have "(i + k, batch ! k) \<in> set (enumerate i batch)"
    by (metis in_set_conv_nth length_enumerate nth_enumerate_eq)
  then have "readCall (i + k, batch ! k) \<in> readCall ` set (enumerate i batch)"
    by (rule imageI)
  then show ?thesis by simp
qed

lemma extractLoop_reads:
  "i \<le> k \<Longrightarrow> k < length files \<Longrightarrow>
   Call (InvokeReadFileContent (path (files ! k)) 50000) \<in> set (snd (extractLoop env t files i acc))"
proof (induction env t files i acc rule: extractLoop.induct)
  case (1 env t files i acc)
  have lt: "i < length files" using "1.prems" by simp
  let ?batch = "slice files i (i + batchSize)"
  show ?case
  proof (cases "k < i + batchSize")
    case True
    have "k - i < length ?batch" using True "1.prems" by (auto simp: length_slice)
    from enumerate_readCall [OF this, of i]
    have "Call (InvokeReadFileContent (path (files ! k)) 50000) \<in> set (map readCall (enumerate i ?batch))"
      using True "1.prems" by (simp add: slice_nth)
    then show ?thesis
      using lt by (subst extractLoop.simps) (simp add: Let_def batchEffects_def)
  next
    case False
    then have "i + batchSize \<le> k" by simp
    from "1.IH" [OF lt refl refl refl this "1.prems"(2)]
    show ?thesis
      using lt by (subst extractLoop.simps) (simp add: Let_def)
  qed
qed

lemma extractOne_Some:
  assumes "extractOne env k file = Some p"
  shows "\<exists>content response.
      read_file_content env k (path file) 50000 = Inr content \<and> content \<noteq> []
      \<and> extract_content env k
           \<lparr>content_bytes = content, eb_extension = extension file, eb_filename = filename file\<rparr>
          = Inr response
      \<and> er_ok response \<and> p = er_content_preview response \<and> p \<noteq> []"
  using assms by (auto simp: extractOne_def split: sum.splits if_splits)

lemma extractOne_cong:
  assumes "read_file_content env' k = read_file_content env k"
    and "extract_content env' k = extract_content env k"
  shows "extractOne env' k file = extractOne env k file"
  unfolding extractOne_def assms by (rule refl)

lemma extractionStage_nth:
  assumes "useContentExtraction s" and "k < length files"
  shows "fst (extractionStage env s t files) ! k = filled env k (files ! k) (toApiFile (files ! k))"
  using assms by (simp add: extractionStage_def Let_def extractLoop_nth)

text \<open>
  Claim C5. With content extraction on, the list handed to the analysis has the length
  of the scanned list, and its entry at each position is the entry of the scanned file
  at that position with the preview its own task assigned, or the empty preview when
  the task assigned none. A preview is filled only when the file's read returned bytes
  and the extractor answered ok with that preview; a refused read leaves it empty. The
  entry at a position depends on the answers for that position alone, whatever happens
  to the other files, and every file is read, in whichever window it falls.
\<close>

theorem extraction_keeps_order_and_isolates_failures:
  assumes "useContentExtraction s"
  shows "length (fst (extractionStage env s t files)) = length files
    \<and> (\<forall>k<length files.
          fst (extractionStage env s t files) ! k
            = (toApiFile (files ! k))
                \<lparr>content_preview := (case extractOne env k (files ! k) of None \<Rightarrow> [] | Some p \<Rightarrow> p)\<rparr>)
    \<and> (\<forall>k<length files.
          content_preview (fst (extractionStage env s t files) ! k) \<noteq> [] \<longrightarrow>
          (\<exists>content response.
              read_file_content env k (path (files ! k)) 50000 = Inr content \<and> content \<noteq> []
              \<and> extract_content env k
                   \<lparr>content_bytes = content, eb_extension = extension (files ! k),
                    eb_filename = filename (files ! k)\<rparr> = Inr response
              \<and> er_ok response
              \<and> content_preview (fst (extractionStage env s t files) ! k) = er_content_preview response))
    \<and> (\<forall>k<length files.
          (\<exists>e. read_file_content env k (path (files ! k)) 50000 = Inl e) \<longrightarrow>
          content_preview (fst (extractionStage env s t files) ! k) = [])
    \<and> (\<forall>k<length files. \<forall>env'.
          read_file_content env' k = read_file_content env k
          \<and> extract_content env' k = extract_content env k \<longrightarrow>
          fst (extractionStage env' s t files) ! k = fst (extractionStage env s t files) ! k)
    \<and> (\<forall>k<length files.
          Call (InvokeReadFileContent (path (files ! k)) 50000) \<in> set (snd (extractionStage env s t files)))"
proof -
  have len: "length (fst (extractionStage env s t files)) = length files"
    using assms by (simp add: extractionStage_def Let_def length_extractLoop)
  have entry: "fst (extractionStage env s t files) ! k
      = (toApiFile (files ! k))
          \<lparr>content_preview := (case extractOne env k (files ! k) of None \<Rightarrow> [] | Some p \<Rightarrow> p)\<rparr>"
    if "k < length files" for k
    using extractionStage_nth [OF assms that, of env t]
    by (simp add: filled_def toApiFile_def split: option.splits)
  have only_if: "\<exists>content response.
        read_file_content env k (path (files ! k)) 50000 = Inr content \<and> content \<noteq> []
        \<and> extract_content env k
             \<lparr>content_bytes = content, eb_extension = extension (files ! k),
              eb_filename = filename (files ! k)\<rparr> = Inr response
        \<and> er_ok response
        \<and> content_preview (fst (extractionStage env s t files) ! k) = er_content_preview response"
    if "k < length files" and "content_preview (fst (extractionStage env s t files) ! k) \<noteq> []" for k
  proof (cases "extractOne env k (files ! k)")
    case None
    then show ?thesis using that by (simp add: entry)
  next
    case (Some p)
    from extractOne_Some [OF Some] show ?thesis
      using that(1) Some by (auto simp: entry)
  qed
  have failed: "content_preview (fst (extractionStage env s t files) ! k) = []"
    if "k < length files" and "read_file_content env k (path (files ! k)) 50000 = Inl e" for k e
    using that by (simp add: entry extractOne_def)
  have isolated: "fst (extractionStage env' s t files) ! k = fst (extractionStage env s t files) ! k"
    if "k < length files" and "read_file_content env' k = read_file_content env k"
      and "extract_content env' k = extract_content env k" for k env'
    using extractionStage_nth [OF assms that(1), of env' t]
      extractionStage_nth [OF assms that(1), of env t] extractOne_cong [OF that(2,3)]
    by (simp add: filled_def)
  have reads: "Call (InvokeReadFileContent (path (files ! k)) 50000)
      \<in> set (snd (extractionStage env s t files))"
    if "k < length files" for k
    using assms extractLoop_reads [OF _ that, of 0 env t "map toApiFile files"]
    by (simp add: extractionStage_def Let_def)
  show ?thesis
  proof (intro conjI allI impI)
    show "length (fst (extractionStage env s t files)) = length files" by (rule len)
  next
    fix k assume "k < length files"
    then show "fst (extractionStage env s t files) ! k
      = (toApiFile (files ! k))
          \<lparr>content_preview := (case extractOne env k (files ! k) of None \<Rightarrow> [] | Some p \<Rightarrow> p)\<rparr>"
      by (rule entry)
  next
    fix k assume "k < length files"
      and "content_preview (fst (extractionStage env s t files) ! k) \<noteq> []"
    then show "\<exists>content response.
        read_file_content env k (path (files ! k)) 50000 = Inr content \<and> content \<noteq> []
        \<and> extract_content env k
             \<lparr>content_bytes = content, eb_extension = extension (files ! k),
              eb_filename = filename (files ! k)\<rparr> = Inr response
        \<and> er_ok response
        \<and> content_preview (fst (extractionStage env s t files) ! k) = er_content_preview response"
      by (rule only_if)
  next
    fix k assume "k < length files"
      and "\<exists>e. read_file_content env k (path (files ! k)) 50000 = Inl e"
    then show "content_preview (fst (extractionStage env s t files) ! k) = []"
      using failed by blast
  next
    fix k and env' :: env assume "k < length files"
      and "read_file_content env' k = read_file_content env k
        \<and> extract_content env' k = extract_content env k"
    then show "fst (extractionStage env' s t files) ! k = fst (extractionStage env s t files) ! k"
      using isolated by blast
  next
    fix k assume "k < length files"
    then show "Call (InvokeReadFileContent (path (files ! k)) 50000)
      \<in> set (snd (extractionStage env s t files))"
      by (rule reads)
  qed
qed

theorem extraction_keeps_order_and_isolates_failures_witness:
  "useContentExtraction exExtract
   \<and> length (fst (extractionStage exEnv exExtract ''token'' [fileA, fileB, fileC])) = 3
   \<and> fst (extractionStage exEnv exExtract ''token'' [fileA, fileB, fileC]) ! 0
       = (toApiFile fileA)\<lparr>content_preview := ''text''\<rparr>
   \<and> fst (extractionStage exEnv exExtract ''token'' [fileA, fileB, fileC]) ! 1 = toApiFile fileB
   \<and> fst (extractionStage exEnv exExtract ''token'' [fileA, fileB, fileC]) ! 2
       = (toApiFile fileC)\<lparr>content_preview := ''text''\<rparr>
   \<and> Call (InvokeReadFileContent ''/d/c.txt'' 50000)
       \<in> set (snd (extractionStage exEnv exExtract ''token'' [fileA, fileB, fileC]))"
proof -
  have on: "useContentExtraction exExtract"
    by (simp add: exExtract_def exSession_def)
  note th = extraction_keeps_order_and_isolates_failures [OF on, of exEnv "''token''" "[fileA, fileB, fileC]"]
  note len = th [THEN conjunct1]
  note entry = th [THEN conjunct2, THEN conjunct1, rule_format]
  note reads = th [THEN conjunct2, THEN conjunct2, THEN conjunct2, THEN conjunct2, THEN conjunct2,
      rule_format]
  have one: "extractOne exEnv 0 fileA = Some ''text''" "extractOne exEnv 1 fileB = None"
    "extractOne exEnv 2 fileC = Some ''text''"
    by (simp_all add: extractOne_def exEnv_def)
  have e0: "fst (extractionStage exEnv exExtract ''token'' [fileA, fileB, fileC]) ! 0
       = (toApiFile fileA)\<lparr>content_preview := ''text''\<rparr>"
    using entry [of 0] one(1) by simp
  have e1: "fst (extractionStage exEnv exExtract ''token'' [fileA, fileB, fileC]) ! 1 = toApiFile fileB"
    using entry [of 1] one(2) by (simp add: toApiFile_def)
  have e2: "fst (extractionStage exEnv exExtract ''token'' [fileA, fileB, fileC]) ! 2
       = (toApiFile fileC)\<lparr>content_preview := ''text''\<rparr>"
    using entry [of 2] one(3) by simp
  have r2: "Call (InvokeReadFileContent ''/d/c.txt'' 50000)
       \<in> set (snd (extractionStage exEnv exExtract ''token'' [fileA, fileB, fileC]))"
    using reads [of 2] by (simp add: fileC_def)
  have l: "length (fst (extractionStage exEnv exExtract ''token'' [fileA, fileB, fileC])) = 3"
    using len by simp
  show ?thesis
    by (intro conjI on l e0 e1 e2 r2)
qed

section \<open>Cancellation\<close>




lemma pending_statusOnly: "isAnalysisOrExtraction e \<Longrightarrow> statusOnly e"
  by (cases e) auto





section \<open>Execution\<close>

text \<open>
  Claim C10. When no result is stored or the selected folder is the empty string,
  \<^verbatim>\<open>handleExecuteOrganize\<close> returns at once: it sets nothing and calls nothing, so
  the session is as it was.
\<close>

theorem execute_without_plan_is_noop:
  assumes "organizeResult s = None \<or> selectedFolder s = []"
  shows "handleExecuteOrganize env s = []
    \<and> calls (handleExecuteOrganize env s) = []
    \<and> run (handleExecuteOrganize env s) s = s"
  using assms by (auto simp: handleExecuteOrganize_def split: option.splits)

theorem execute_without_plan_is_noop_witness:
  "organizeResult exSession = None
   \<and> handleExecuteOrganize exEnv exSession = []
   \<and> calls (handleExecuteOrganize exEnv exSession) = []
   \<and> run (handleExecuteOrganize exEnv exSession) exSession = exSession"
  using execute_without_plan_is_noop [of exSession exEnv]
  by (simp add: exSession_def)

text \<open>
  The handler reads the stored result, the selected folder and the scanned files, and
  nothing else of the state; and it never calls the analysis.
\<close>

lemma logOne_same_folder:
  assumes "selectedFolder s' = selectedFolder s"
  shows "logOne env s' t = logOne env s t"
proof
  fix x show "logOne env s' t x = logOne env s t x"
    using assms by (cases x) (simp add: logBody_def)
qed

lemma logActions_same_plan:
  "selectedFolder s' = selectedFolder s \<Longrightarrow> scannedFiles s' = scannedFiles s
   \<Longrightarrow> logActions env s' t r = logActions env s t r"
  using logOne_same_folder [of s' s env t] by (simp add: logActions_def)

lemma handleExecuteOrganize_same_plan:
  assumes "organizeResult s' = organizeResult s" and "selectedFolder s' = selectedFolder s"
    and "scannedFiles s' = scannedFiles s"
  shows "handleExecuteOrganize env s' = handleExecuteOrganize env s"
  using assms logActions_same_plan [OF assms(2,3)]
  by (simp add: handleExecuteOrganize_def split: option.splits sum.splits)

lemma calls_logOne: "\<forall>c\<in>set (calls (logOne env s t x)). \<not> isAnalyzeCall c"
  by (cases x) (auto split: option.splits)

lemma calls_concat: "calls (concat xss) = concat (map calls xss)"
  by (induction xss) (auto simp: calls_append)

lemma calls_logActions: "\<forall>c\<in>set (calls (logActions env s t r)). \<not> isAnalyzeCall c"
  using calls_logOne by (fastforce simp: logActions_def calls_concat)

lemma execute_never_analyzes: "\<forall>c\<in>set (calls (handleExecuteOrganize env s)). \<not> isAnalyzeCall c"
  using calls_logActions [of env s]
  by (auto simp: handleExecuteOrganize_def catchExecute_def calls_append
      split: option.splits sum.splits)

text \<open>
  Claim C7. When the move call of an execution throws (the step is \<open>Executing\<close> while
  it is awaited), the handler ends in step \<open>Preview\<close> with the error as status; the
  stored result, the scanned files and the selected folder are unchanged. A second
  \<^verbatim>\<open>handleExecuteOrganize\<close> from the state reached therefore does what one from the
  first state does with the same collaborators, and makes no analyze call.
\<close>

theorem execute_failure_keeps_plan:
  assumes "organizeResult s = Some r" and "selectedFolder s \<noteq> []"
    and "execute_file_moves env (selectedFolder s) (buildMoves (scannedFiles s) r) True = Inl e"
  shows "organizeStep (run (take 3 (handleExecuteOrganize env s)) s) = Executing
    \<and> organizeStep (run (handleExecuteOrganize env s) s) = Preview
    \<and> organizeStatus (run (handleExecuteOrganize env s) s) = StError e
    \<and> organizeResult (run (handleExecuteOrganize env s) s) = Some r
    \<and> scannedFiles (run (handleExecuteOrganize env s) s) = scannedFiles s
    \<and> selectedFolder (run (handleExecuteOrganize env s) s) = selectedFolder s
    \<and> handleExecuteOrganize env' (run (handleExecuteOrganize env s) s) = handleExecuteOrganize env' s
    \<and> (\<forall>c\<in>set (calls (handleExecuteOrganize env' s)). \<not> isAnalyzeCall c)"
proof -
  have tr: "handleExecuteOrganize env s =
      [SetOrganizeStep Executing, SetOrganizeStatus StMoving,
       Call (InvokeExecuteFileMoves (selectedFolder s) (buildMoves (scannedFiles s) r) True),
       SetOrganizeStatus (StError e), SetOrganizeStep Preview]"
    using assms by (simp add: handleExecuteOrganize_def catchExecute_def)
  have fields: "organizeResult (run (handleExecuteOrganize env s) s) = organizeResult s"
    "scannedFiles (run (handleExecuteOrganize env s) s) = scannedFiles s"
    "selectedFolder (run (handleExecuteOrganize env s) s) = selectedFolder s"
    by (simp_all add: tr)
  have "handleExecuteOrganize env' (run (handleExecuteOrganize env s) s) = handleExecuteOrganize env' s"
    by (rule handleExecuteOrganize_same_plan) (rule fields)+
  then show ?thesis
    using fields assms(1) execute_never_analyzes [of env' s] by (simp add: tr)
qed

theorem execute_failure_keeps_plan_witness:
  "organizeResult exPreview = Some exResult \<and> selectedFolder exPreview \<noteq> []
   \<and> execute_file_moves brokenMoveEnv (selectedFolder exPreview)
        (buildMoves (scannedFiles exPreview) exResult) True = Inl (Rejected ''disk full'')
   \<and> organizeStep (run (handleExecuteOrganize brokenMoveEnv exPreview) exPreview) = Preview
   \<and> organizeStatus (run (handleExecuteOrganize brokenMoveEnv exPreview) exPreview)
        = StError (Rejected ''disk full'')
   \<and> organizeResult (run (handleExecuteOrganize brokenMoveEnv exPreview) exPreview) = Some exResult
   \<and> scannedFiles (run (handleExecuteOrganize brokenMoveEnv exPreview) exPreview) = [fileA, fileB, fileC]
   \<and> handleExecuteOrganize exEnv (run (handleExecuteOrganize brokenMoveEnv exPreview) exPreview)
        = handleExecuteOrganize exEnv exPreview"
  using execute_failure_keeps_plan [of exPreview exResult brokenMoveEnv "Rejected ''disk full''" exEnv]
  by (simp add: exPreview_def exSession_def brokenMoveEnv_def exEnv_def)

subsection \<open>Move construction\<close>

text \<open>
  The log calls write nothing, so the state an execution ends in is the state it started
  in with the step and the status of its outcome.
\<close>

lemma run_noWrite: "\<forall>e\<in>set es. noWrite e \<Longrightarrow> run es s = s"
proof (induction es arbitrary: s)
  case Nil
  then show ?case by simp
next
  case (Cons e es)
  then show ?case by (cases e) auto
qed

lemma noWrite_logOne: "\<forall>e\<in>set (logOne env s t x). noWrite e"
  by (cases x) (auto split: option.splits)

lemma noWrite_logActions: "\<forall>e\<in>set (logActions env s t r). noWrite e"
  using noWrite_logOne by (fastforce simp: logActions_def)

lemma run_logActions: "run (logActions env s t r) s' = s'"
  by (rule run_noWrite) (rule noWrite_logActions)

lemma calls_logOne_eq:
  "calls (logOne env s t x) = [HttpLogAction t (logBody s (fst (snd x)) (fst (snd (snd x))) (snd (snd (snd x))))]"
  by (cases x) (auto split: option.splits)

lemma moves_of_folder:
  "map (\<lambda>m. (dest_folder m, mv_filename m))
     (filter (\<lambda>m. source_path m \<noteq> [])
        (map (\<lambda>name.
           \<lparr>source_path = (case find (\<lambda>f. filename f = name) scanned of
                              None \<Rightarrow> [] | Some file \<Rightarrow> path file),
            dest_folder = folder_path folder, mv_filename = name\<rparr>) names))
   = map (\<lambda>(folder, name). (folder_path folder, name))
       (filter (\<lambda>(folder, name). resolves scanned name) (map (\<lambda>name. (folder, name)) names))"
  by (induction names) (auto simp: resolves_def split: option.splits)

lemma buildMoves_pairs:
  "map (\<lambda>m. (dest_folder m, mv_filename m)) (buildMoves scanned r)
   = map (\<lambda>(folder, name). (folder_path folder, name))
       (filter (\<lambda>(folder, name). resolves scanned name) (pairs r))"
  unfolding buildMoves_def pairs_def map_concat filter_concat map_map comp_def moves_of_folder ..

lemma buildMoves_source:
  assumes "m \<in> set (buildMoves scanned r)"
  shows "\<exists>file. find (\<lambda>f. filename f = mv_filename m) scanned = Some file
      \<and> source_path m = path file \<and> path file \<noteq> []"
  using assms by (auto simp: buildMoves_def split: option.splits)

lemma buildMoves_unresolved:
  assumes "\<not> resolves scanned name" and "m \<in> set (buildMoves scanned r)"
  shows "mv_filename m \<noteq> name"
  using buildMoves_source [OF assms(2)] assms(1) by (auto simp: resolves_def)

lemma moves_of_filtered:
  "filter (\<lambda>m. source_path m \<noteq> [])
        (map (\<lambda>name.
           \<lparr>source_path = (case find (\<lambda>f. filename f = name) scanned of
                              None \<Rightarrow> [] | Some file \<Rightarrow> path file),
            dest_folder = d, mv_filename = name\<rparr>) (filter (resolves scanned) names))
   = filter (\<lambda>m. source_path m \<noteq> [])
        (map (\<lambda>name.
           \<lparr>source_path = (case find (\<lambda>f. filename f = name) scanned of
                              None \<Rightarrow> [] | Some file \<Rightarrow> path file),
            dest_folder = d, mv_filename = name\<rparr>) names)"
  by (induction names) (auto simp: resolves_def split: option.splits)

lemma buildMoves_dropUnresolved:
  "buildMoves scanned (dropUnresolved scanned r) = buildMoves scanned r"
  by (simp add: buildMoves_def dropUnresolved_def comp_def moves_of_filtered)

lemma run_handleExecuteOrganize:
  assumes "organizeResult s = Some r" and "selectedFolder s \<noteq> []"
  shows "run (handleExecuteOrganize env s) s0
    = s0\<lparr>organizeStep := snd (executeOutcome env (selectedFolder s) (buildMoves (scannedFiles s) r)),
         organizeStatus := fst (executeOutcome env (selectedFolder s) (buildMoves (scannedFiles s) r))\<rparr>"
  using assms
  by (simp add: handleExecuteOrganize_def executeOutcome_def catchExecute_def run_append
      run_logActions split: sum.splits option.splits)

lemma calls_logActions_eq:
  "calls (logActions env s t r)
   = map (\<lambda>(folder, name, file). HttpLogAction t (logBody s folder name file))
       (logTargets (scannedFiles s) r)"
proof -
  let ?g = "\<lambda>(folder, name, file). HttpLogAction t (logBody s folder name file)"
  have one: "concat (map (\<lambda>x. calls (logOne env s t x)) xs) = map ?g (map snd xs)" for xs
    by (induction xs) (auto simp: calls_logOne_eq)
  have "calls (logActions env s t r)
      = concat (map (\<lambda>x. calls (logOne env s t x)) (enumerate 0 (logTargets (scannedFiles s) r)))"
    by (simp add: logActions_def calls_concat comp_def)
  also have "\<dots> = map ?g (map snd (enumerate 0 (logTargets (scannedFiles s) r)))"
    by (rule one)
  also have "\<dots> = map ?g (logTargets (scannedFiles s) r)"
    by (simp only: map_snd_enumerate)
  finally show ?thesis .
qed

lemma filter_isMoveCall_logActions: "filter isMoveCall (calls (logActions env s t r)) = []"
  by (auto simp: calls_logActions_eq filter_empty_conv)

lemma filter_isLogCall_logActions:
  "filter isLogCall (calls (logActions env s t r)) = calls (logActions env s t r)"
  by (auto simp: calls_logActions_eq filter_id_conv)

lemma single_submission:
  assumes "organizeResult s = Some r" and "selectedFolder s \<noteq> []"
  shows "filter isMoveCall (calls (handleExecuteOrganize env s))
    = [InvokeExecuteFileMoves (selectedFolder s) (buildMoves (scannedFiles s) r) True]"
  using assms
  by (simp add: handleExecuteOrganize_def catchExecute_def calls_append
      filter_isMoveCall_logActions split: sum.splits option.splits)

text \<open>
  Claim C6. The moves built are, in order, one per (folder, file name) pair whose file
  name resolves, each with the folder's path as destination and the path of the first
  scanned file of that name as source. A file name that does not resolve is in no move.
  The handler submits exactly this list, once; and since removing the names that do not
  resolve from the result changes neither the list nor, hence, what the move call
  answers, the status (which reports the moved count, or the moved count and the number
  of errors) and the step an execution ends with are the same with and without them.
  A scanned file with an empty path counts as not resolving.
\<close>

theorem unresolved_moves_dropped:
  "map (\<lambda>m. (dest_folder m, mv_filename m)) (buildMoves scanned r)
     = map (\<lambda>(folder, name). (folder_path folder, name))
         (filter (\<lambda>(folder, name). resolves scanned name) (pairs r))
   \<and> (\<forall>m\<in>set (buildMoves scanned r).
         \<exists>file. find (\<lambda>f. filename f = mv_filename m) scanned = Some file
           \<and> source_path m = path file \<and> path file \<noteq> [])
   \<and> (\<forall>name. \<not> resolves scanned name \<longrightarrow>
         (\<forall>m\<in>set (buildMoves scanned r). mv_filename m \<noteq> name))
   \<and> buildMoves scanned (dropUnresolved scanned r) = buildMoves scanned r
   \<and> (\<forall>env s. organizeResult s = Some r \<and> selectedFolder s \<noteq> [] \<and> scannedFiles s = scanned \<longrightarrow>
         filter isMoveCall (calls (handleExecuteOrganize env s))
           = [InvokeExecuteFileMoves (selectedFolder s) (buildMoves scanned r) True]
         \<and> organizeStatus (run (handleExecuteOrganize env s) s)
           = organizeStatus (run (handleExecuteOrganize env
                (s\<lparr>organizeResult := Some (dropUnresolved scanned r)\<rparr>)) s)
         \<and> organizeStep (run (handleExecuteOrganize env s) s)
           = organizeStep (run (handleExecuteOrganize env
                (s\<lparr>organizeResult := Some (dropUnresolved scanned r)\<rparr>)) s))"
proof (intro conjI allI impI ballI)
  show "map (\<lambda>m. (dest_folder m, mv_filename m)) (buildMoves scanned r)
     = map (\<lambda>(folder, name). (folder_path folder, name))
         (filter (\<lambda>(folder, name). resolves scanned name) (pairs r))"
    by (rule buildMoves_pairs)
next
  fix m assume "m \<in> set (buildMoves scanned r)"
  then show "\<exists>file. find (\<lambda>f. filename f = mv_filename m) scanned = Some file
           \<and> source_path m = path file \<and> path file \<noteq> []"
    by (rule buildMoves_source)
next
  fix name m assume "\<not> resolves scanned name" and "m \<in> set (buildMoves scanned r)"
  then show "mv_filename m \<noteq> name" by (rule buildMoves_unresolved)
next
  show "buildMoves scanned (dropUnresolved scanned r) = buildMoves scanned r"
    by (rule buildMoves_dropUnresolved)
next
  fix env and s :: session
  assume a: "organizeResult s = Some r \<and> selectedFolder s \<noteq> [] \<and> scannedFiles s = scanned"
  then show "filter isMoveCall (calls (handleExecuteOrganize env s))
           = [InvokeExecuteFileMoves (selectedFolder s) (buildMoves scanned r) True]"
    using single_submission [of s r env] by simp
  let ?s' = "s\<lparr>organizeResult := Some (dropUnresolved scanned r)\<rparr>"
  have run1: "run (handleExecuteOrganize env s) s
      = s\<lparr>organizeStep := snd (executeOutcome env (selectedFolder s) (buildMoves scanned r)),
          organizeStatus := fst (executeOutcome env (selectedFolder s) (buildMoves scanned r))\<rparr>"
    using a run_handleExecuteOrganize [of s r env s] by simp
  have run2: "run (handleExecuteOrganize env ?s') s
      = s\<lparr>organizeStep := snd (executeOutcome env (selectedFolder s) (buildMoves scanned r)),
          organizeStatus := fst (executeOutcome env (selectedFolder s) (buildMoves scanned r))\<rparr>"
    using a run_handleExecuteOrganize [of ?s' "dropUnresolved scanned r" env s]
    by (simp add: buildMoves_dropUnresolved)
  show "organizeStatus (run (handleExecuteOrganize env s) s)
           = organizeStatus (run (handleExecuteOrganize env ?s') s)"
    by (simp add: run1 run2)
  show "organizeStep (run (handleExecuteOrganize env s) s)
           = organizeStep (run (handleExecuteOrganize env ?s') s)"
    by (simp add: run1 run2)
qed

theorem unresolved_moves_dropped_witness:
  "\<not> resolves [fileA, fileB, fileC] ''d.txt''
   \<and> filter (\<lambda>m. mv_filename m = ''d.txt'') (buildMoves [fileA, fileB, fileC] exResult) = []
   \<and> map (\<lambda>m. (dest_folder m, mv_filename m)) (buildMoves [fileA, fileB, fileC] exResult)
       = [(''Docs'', ''a.pdf''), (''Docs'', ''c.txt''), (''Images'', ''b.jpg'')]
   \<and> filter isMoveCall (calls (handleExecuteOrganize exEnv exPreview))
       = [InvokeExecuteFileMoves ''/d'' (buildMoves [fileA, fileB, fileC] exResult) True]
   \<and> organizeStatus (run (handleExecuteOrganize exEnv exPreview) exPreview) = StMoved 3"
proof -
  note th = unresolved_moves_dropped [of "[fileA, fileB, fileC]" exResult]
  have un: "\<not> resolves [fileA, fileB, fileC] ''d.txt''"
    by (simp add: resolves_def fileA_def fileB_def fileC_def)
  have none: "\<forall>m\<in>set (buildMoves [fileA, fileB, fileC] exResult). mv_filename m \<noteq> ''d.txt''"
    using th [THEN conjunct2, THEN conjunct2, THEN conjunct1, rule_format, OF un] by blast
  have flt: "filter (\<lambda>m. mv_filename m = ''d.txt'') (buildMoves [fileA, fileB, fileC] exResult) = []"
    using none by (simp add: filter_empty_conv)
  have res: "resolves [fileA, fileB, fileC] ''a.pdf''" "resolves [fileA, fileB, fileC] ''b.jpg''"
    "resolves [fileA, fileB, fileC] ''c.txt''"
    by (simp_all add: resolves_def fileA_def fileB_def fileC_def)
  have prs: "map (\<lambda>m. (dest_folder m, mv_filename m)) (buildMoves [fileA, fileB, fileC] exResult)
       = [(''Docs'', ''a.pdf''), (''Docs'', ''c.txt''), (''Images'', ''b.jpg'')]"
    using th [THEN conjunct1] un res by (simp add: pairs_def exResult_def docs_def images_def)
  have pre: "organizeResult exPreview = Some exResult \<and> selectedFolder exPreview \<noteq> []
      \<and> scannedFiles exPreview = [fileA, fileB, fileC]"
    by (simp add: exPreview_def exSession_def)
  note h = th [THEN conjunct2, THEN conjunct2, THEN conjunct2, THEN conjunct2, rule_format, OF pre]
  have sub: "filter isMoveCall (calls (handleExecuteOrganize exEnv exPreview))
       = [InvokeExecuteFileMoves ''/d'' (buildMoves [fileA, fileB, fileC] exResult) True]"
    using h [of exEnv, THEN conjunct1] by (simp add: exPreview_def exSession_def)
  have "buildMoves [fileA, fileB, fileC] (dropUnresolved [fileA, fileB, fileC] exResult)
      = [\<lparr>source_path = ''/d/a.pdf'', dest_folder = ''Docs'', mv_filename = ''a.pdf''\<rparr>,
         \<lparr>source_path = ''/d/c.txt'', dest_folder = ''Docs'', mv_filename = ''c.txt''\<rparr>,
         \<lparr>source_path = ''/d/b.jpg'', dest_folder = ''Images'', mv_filename = ''b.jpg''\<rparr>]"
    using un res
    by (simp add: buildMoves_def dropUnresolved_def exResult_def docs_def images_def
        fileA_def fileB_def fileC_def)
  then have "organizeStatus (run (handleExecuteOrganize exEnv
      (exPreview\<lparr>organizeResult := Some (dropUnresolved [fileA, fileB, fileC] exResult)\<rparr>)) exPreview)
      = StMoved 3"
    by (simp add: handleExecuteOrganize_def exPreview_def exSession_def exEnv_def run_append
        run_logActions)
  then have st: "organizeStatus (run (handleExecuteOrganize exEnv exPreview) exPreview) = StMoved 3"
    using h [of exEnv, THEN conjunct2, THEN conjunct1] by simp
  show ?thesis
    by (intro conjI un flt prs sub st)
qed

subsection \<open>History logging\<close>

lemma logTargets_pairs:
  "map (\<lambda>(folder, name, file). (folder, name)) (logTargets scanned r)
   = filter (\<lambda>(folder, name). find (\<lambda>f. filename f = name) scanned \<noteq> None) (pairs r)"
proof -
  let ?g = "\<lambda>(folder, name, file). (folder, name)"
  let ?P = "\<lambda>(folder, name). find (\<lambda>f. filename f = name) scanned \<noteq> None"
  let ?H = "\<lambda>folder name. (case find (\<lambda>f. filename f = name) scanned of
                               None \<Rightarrow> [] | Some file \<Rightarrow> [(folder, name, file)])"
  have inner: "map ?g (concat (map (?H folder) names)) = filter ?P (map (\<lambda>name. (folder, name)) names)"
    for folder :: FolderSuggestion and names
    by (induction names) (auto split: option.splits)
  have "map ?g (concat (map (\<lambda>folder. concat (map (?H folder) (sug_files folder))) fs))
      = filter ?P (concat (map (\<lambda>folder. map (\<lambda>name. (folder, name)) (sug_files folder)) fs))"
    for fs :: "FolderSuggestion list"
  proof (induction fs)
    case Nil
    show ?case by simp
  next
    case (Cons a fs)
    show ?case
      using Cons.IH inner [of a "sug_files a"] by (simp del: map_concat)
  qed
  then show ?thesis
    unfolding logTargets_def pairs_def .
qed

lemma logTargets_found:
  assumes "(folder, name, file) \<in> set (logTargets scanned r)"
  shows "find (\<lambda>f. filename f = name) scanned = Some file \<and> filename file = name
    \<and> folder \<in> set (folders r) \<and> name \<in> set (sug_files folder)"
proof -
  have "find (\<lambda>f. filename f = name) scanned = Some file \<and> folder \<in> set (folders r)
      \<and> name \<in> set (sug_files folder)"
    using assms by (auto simp: logTargets_def split: option.splits)
  then show ?thesis by (auto simp: find_Some_iff)
qed

lemma executeOutcome_log_action:
  "executeOutcome (env\<lparr>log_action := l\<rparr>) folder moves = executeOutcome env folder moves"
  by (simp add: executeOutcome_def split: sum.splits)

text \<open>The two gates of the logging: a token, and a move call that reported something moved.\<close>

lemma no_log_without_token:
  assumes "get_access_token env = Inr None \<or> get_access_token env = Inr (Some [])"
  shows "filter isLogCall (calls (handleExecuteOrganize env s)) = []"
  using assms
  by (auto simp: handleExecuteOrganize_def catchExecute_def calls_append
      split: option.splits sum.splits)

lemma no_log_after_unsuccessful_moves:
  assumes "organizeResult s = Some r" and "selectedFolder s \<noteq> []"
    and "execute_file_moves env (selectedFolder s) (buildMoves (scannedFiles s) r) True = Inr result"
    and "\<not> success result" and "\<not> moved_count result > 0"
  shows "filter isLogCall (calls (handleExecuteOrganize env s)) = []"
  using assms by (simp add: handleExecuteOrganize_def)

text \<open>
  The default of the confidence is taken with \<^verbatim>\<open>||\<close>, so it also replaces a
  confidence that is exactly 0.
\<close>

lemma logConfidence_zero: "logConfidence (folder\<lparr>confidence := Some 0\<rparr>) = 9 / 10"
  by (simp add: logConfidence_def)

text \<open>
  Claim C8, as stated, fails: the log calls are made only when the move call reported a
  success or a moved file and a token is available. Here the moves succeed and a scanned
  file exists for a suggested name, but without a token no log call is made.
\<close>

theorem logging_skipped_without_token:
  "docs \<in> set (folders exResult) \<and> ''a.pdf'' \<in> set (sug_files docs)
   \<and> fileA \<in> set (scannedFiles exPreview) \<and> filename fileA = ''a.pdf''
   \<and> organizeResult exPreview = Some exResult
   \<and> organizeStatus (run (handleExecuteOrganize tokenlessEnv exPreview) exPreview) = StMoved 3
   \<and> filter isLogCall (calls (handleExecuteOrganize tokenlessEnv exPreview)) = []"
  by (simp add: handleExecuteOrganize_def buildMoves_def tokenlessEnv_def exEnv_def exPreview_def
      exSession_def exResult_def docs_def images_def fileA_def fileB_def fileC_def run_append)

text \<open>
  Claim C8, amended. When the move call returns with \<open>success\<close> or a positive moved
  count and an access token is available, the handler makes one log call for every
  (folder, file name) pair for which a scanned file of that name exists, in order, and
  no other; the call carries the file's name and path, the destination path built from
  the selected folder, the folder's path and the name, and a confidence that is 0.9 when
  the suggestion has none and the suggestion's own when it has one that is not zero.
  Whatever the log calls answer, the state the execution ends in is the same: step
  \<open>Done\<close>, the moved count as status, result and scanned files untouched.
  With any collaborators that have no token (null or the empty string), and with any
  whose move call reports neither \<open>success\<close> nor a moved file, the handler makes no
  log call at all.
\<close>

theorem logging_one_call_per_found_file:
  assumes "organizeResult s = Some r" and "selectedFolder s \<noteq> []"
    and "execute_file_moves env (selectedFolder s) (buildMoves (scannedFiles s) r) True = Inr result"
    and "success result \<or> moved_count result > 0"
    and "get_access_token env = Inr (Some t)" and "t \<noteq> []"
  shows "filter isLogCall (calls (handleExecuteOrganize env s))
      = map (\<lambda>(folder, name, file). HttpLogAction t (logBody s folder name file))
          (logTargets (scannedFiles s) r)
    \<and> map (\<lambda>(folder, name, file). (folder, name)) (logTargets (scannedFiles s) r)
      = filter (\<lambda>(folder, name). find (\<lambda>f. filename f = name) (scannedFiles s) \<noteq> None) (pairs r)
    \<and> (\<forall>(folder, name, file)\<in>set (logTargets (scannedFiles s) r).
          find (\<lambda>f. filename f = name) (scannedFiles s) = Some file
          \<and> log_filename (logBody s folder name file) = name
          \<and> log_source_path (logBody s folder name file) = path file
          \<and> dest_path (logBody s folder name file)
              = selectedFolder s @ backslash @ folder_path folder @ backslash @ name
          \<and> (confidence folder = None \<longrightarrow> log_confidence (logBody s folder name file) = 9 / 10)
          \<and> (\<forall>c. confidence folder = Some c \<and> c \<noteq> 0 \<longrightarrow>
                log_confidence (logBody s folder name file) = c))
    \<and> (\<forall>l. run (handleExecuteOrganize (env\<lparr>log_action := l\<rparr>) s) s
            = run (handleExecuteOrganize env s) s)
    \<and> organizeStep (run (handleExecuteOrganize env s) s) = Done
    \<and> organizeStatus (run (handleExecuteOrganize env s) s) = StMoved (moved_count result)
    \<and> organizeResult (run (handleExecuteOrganize env s) s) = Some r
    \<and> scannedFiles (run (handleExecuteOrganize env s) s) = scannedFiles s
    \<and> (\<forall>env'. get_access_token env' = Inr None \<or> get_access_token env' = Inr (Some []) \<longrightarrow>
          filter isLogCall (calls (handleExecuteOrganize env' s)) = [])
    \<and> (\<forall>env' result'.
          execute_file_moves env' (selectedFolder s) (buildMoves (scannedFiles s) r) True = Inr result'
          \<and> \<not> success result' \<and> \<not> moved_count result' > 0 \<longrightarrow>
          filter isLogCall (calls (handleExecuteOrganize env' s)) = [])"
proof (intro conjI allI impI)
  show "filter isLogCall (calls (handleExecuteOrganize env s))
      = map (\<lambda>(folder, name, file). HttpLogAction t (logBody s folder name file))
          (logTargets (scannedFiles s) r)"
  proof -
    have "filter isLogCall (calls (handleExecuteOrganize env s)) = calls (logActions env s t r)"
      using assms
      by (simp add: handleExecuteOrganize_def calls_append filter_isLogCall_logActions)
    then show ?thesis by (simp only: calls_logActions_eq)
  qed
next
  show "map (\<lambda>(folder, name, file). (folder, name)) (logTargets (scannedFiles s) r)
      = filter (\<lambda>(folder, name). find (\<lambda>f. filename f = name) (scannedFiles s) \<noteq> None) (pairs r)"
    by (rule logTargets_pairs)
next
  show "\<forall>(folder, name, file)\<in>set (logTargets (scannedFiles s) r).
          find (\<lambda>f. filename f = name) (scannedFiles s) = Some file
          \<and> log_filename (logBody s folder name file) = name
          \<and> log_source_path (logBody s folder name file) = path file
          \<and> dest_path (logBody s folder name file)
              = selectedFolder s @ backslash @ folder_path folder @ backslash @ name
          \<and> (confidence folder = None \<longrightarrow> log_confidence (logBody s folder name file) = 9 / 10)
          \<and> (\<forall>c. confidence folder = Some c \<and> c \<noteq> 0 \<longrightarrow>
                log_confidence (logBody s folder name file) = c)"
    using logTargets_found [of _ _ _ "scannedFiles s" r]
    by (auto simp: logBody_def logConfidence_def)
next
  fix l
  show "run (handleExecuteOrganize (env\<lparr>log_action := l\<rparr>) s) s = run (handleExecuteOrganize env s) s"
    using assms(1,2)
    by (simp add: run_handleExecuteOrganize [of s r] executeOutcome_log_action)
next
  show "organizeStep (run (handleExecuteOrganize env s) s) = Done"
    using assms by (simp add: run_handleExecuteOrganize [of s r] executeOutcome_def)
next
  show "organizeStatus (run (handleExecuteOrganize env s) s) = StMoved (moved_count result)"
    using assms by (simp add: run_handleExecuteOrganize [of s r] executeOutcome_def)
next
  show "organizeResult (run (handleExecuteOrganize env s) s) = Some r"
    using assms by (simp add: run_handleExecuteOrganize [of s r])
next
  show "scannedFiles (run (handleExecuteOrganize env s) s) = scannedFiles s"
    using assms by (simp add: run_handleExecuteOrganize [of s r])
next
  fix env' :: env
  assume "get_access_token env' = Inr None \<or> get_access_token env' = Inr (Some [])"
  then show "filter isLogCall (calls (handleExecuteOrganize env' s)) = []"
    by (rule no_log_without_token)
next
  fix env' :: env and result'
  assume "execute_file_moves env' (selectedFolder s) (buildMoves (scannedFiles s) r) True = Inr result'
          \<and> \<not> success result' \<and> \<not> moved_count result' > 0"
  then show "filter isLogCall (calls (handleExecuteOrganize env' s)) = []"
    using no_log_after_unsuccessful_moves [OF assms(1,2), of env' result'] by blast
qed

theorem logging_one_call_per_found_file_witness:
  "organizeResult exPreview = Some exResult \<and> selectedFolder exPreview \<noteq> []
   \<and> execute_file_moves exEnv (selectedFolder exPreview) (buildMoves (scannedFiles exPreview) exResult) True
       = Inr \<lparr>success = True, moved_count = 3, errors = []\<rparr>
   \<and> get_access_token exEnv = Inr (Some ''token'')
   \<and> filter isLogCall (calls (handleExecuteOrganize exEnv exPreview))
       = [HttpLogAction ''token'' (logBody exPreview docs ''a.pdf'' fileA),
          HttpLogAction ''token'' (logBody exPreview docs ''c.txt'' fileC),
          HttpLogAction ''token'' (logBody exPreview images ''b.jpg'' fileB)]
   \<and> log_confidence (logBody exPreview docs ''a.pdf'' fileA) = 4 / 5
   \<and> log_confidence (logBody exPreview images ''b.jpg'' fileB) = 9 / 10
   \<and> run (handleExecuteOrganize flakyLogEnv exPreview) exPreview
       = run (handleExecuteOrganize exEnv exPreview) exPreview
   \<and> organizeStep (run (handleExecuteOrganize exEnv exPreview) exPreview) = Done
   \<and> organizeStatus (run (handleExecuteOrganize exEnv exPreview) exPreview) = StMoved 3
   \<and> get_access_token tokenlessEnv = Inr None
   \<and> filter isLogCall (calls (handleExecuteOrganize tokenlessEnv exPreview)) = []
   \<and> execute_file_moves failedMoveEnv (selectedFolder exPreview)
        (buildMoves (scannedFiles exPreview) exResult) True
       = Inr \<lparr>success = False, moved_count = 0, errors = [''access denied'']\<rparr>
   \<and> filter isLogCall (calls (handleExecuteOrganize failedMoveEnv exPreview)) = []"
proof -
  have h1: "organizeResult exPreview = Some exResult" and h2: "selectedFolder exPreview \<noteq> []"
    by (simp_all add: exPreview_def exSession_def)
  have moves: "buildMoves (scannedFiles exPreview) exResult
      = [\<lparr>source_path = ''/d/a.pdf'', dest_folder = ''Docs'', mv_filename = ''a.pdf''\<rparr>,
         \<lparr>source_path = ''/d/c.txt'', dest_folder = ''Docs'', mv_filename = ''c.txt''\<rparr>,
         \<lparr>source_path = ''/d/b.jpg'', dest_folder = ''Images'', mv_filename = ''b.jpg''\<rparr>]"
    by (simp add: buildMoves_def exPreview_def exSession_def exResult_def docs_def images_def
        fileA_def fileB_def fileC_def)
  have h3: "execute_file_moves exEnv (selectedFolder exPreview)
      (buildMoves (scannedFiles exPreview) exResult) True
       = Inr \<lparr>success = True, moved_count = 3, errors = []\<rparr>"
    unfolding moves by (simp add: exEnv_def)
  have h4: "success \<lparr>success = True, moved_count = 3, errors = []\<rparr>
      \<or> moved_count \<lparr>success = True, moved_count = 3, errors = []\<rparr> > 0"
    by simp
  have h5: "get_access_token exEnv = Inr (Some ''token'')" and h6: "''token'' \<noteq> []"
    by (simp_all add: exEnv_def)
  note th = logging_one_call_per_found_file [OF h1 h2 h3 h4 h5 h6]
  have targets: "logTargets (scannedFiles exPreview) exResult
      = [(docs, ''a.pdf'', fileA), (docs, ''c.txt'', fileC), (images, ''b.jpg'', fileB)]"
    by (simp add: logTargets_def exPreview_def exSession_def exResult_def docs_def images_def
        fileA_def fileB_def fileC_def)
  have c1: "filter isLogCall (calls (handleExecuteOrganize exEnv exPreview))
       = [HttpLogAction ''token'' (logBody exPreview docs ''a.pdf'' fileA),
          HttpLogAction ''token'' (logBody exPreview docs ''c.txt'' fileC),
          HttpLogAction ''token'' (logBody exPreview images ''b.jpg'' fileB)]"
    using th [THEN conjunct1] by (simp add: targets)
  note bodies = th [THEN conjunct2, THEN conjunct2, THEN conjunct1, unfolded targets]
  have b2: "\<forall>c. confidence docs = Some c \<and> c \<noteq> 0 \<longrightarrow>
      log_confidence (logBody exPreview docs ''a.pdf'' fileA) = c"
    using bodies by simp
  have c2: "log_confidence (logBody exPreview docs ''a.pdf'' fileA) = 4 / 5"
    using b2 [rule_format, of "4 / 5"] by (simp add: docs_def)
  have b3: "confidence images = None \<longrightarrow>
      log_confidence (logBody exPreview images ''b.jpg'' fileB) = 9 / 10"
    using bodies by simp
  have c3: "log_confidence (logBody exPreview images ''b.jpg'' fileB) = 9 / 10"
    using b3 by (simp add: images_def)
  have c4: "run (handleExecuteOrganize flakyLogEnv exPreview) exPreview
       = run (handleExecuteOrganize exEnv exPreview) exPreview"
    unfolding flakyLogEnv_def
    by (rule th [THEN conjunct2, THEN conjunct2, THEN conjunct2, THEN conjunct1, rule_format])
  note rest = th [THEN conjunct2, THEN conjunct2, THEN conjunct2, THEN conjunct2]
  have c5: "organizeStep (run (handleExecuteOrganize exEnv exPreview) exPreview) = Done"
    by (rule rest [THEN conjunct1])
  have c6: "organizeStatus (run (handleExecuteOrganize exEnv exPreview) exPreview) = StMoved 3"
    using rest [THEN conjunct2, THEN conjunct1] by simp
  note gates = rest [THEN conjunct2, THEN conjunct2, THEN conjunct2, THEN conjunct2]
  have g1: "get_access_token tokenlessEnv = Inr None"
    by (simp add: tokenlessEnv_def)
  have c7: "filter isLogCall (calls (handleExecuteOrganize tokenlessEnv exPreview)) = []"
    using gates [THEN conjunct1, rule_format, of tokenlessEnv] g1 by simp
  have g2: "execute_file_moves failedMoveEnv (selectedFolder exPreview)
        (buildMoves (scannedFiles exPreview) exResult) True
       = Inr \<lparr>success = False, moved_count = 0, errors = [''access denied'']\<rparr>"
    by (simp add: failedMoveEnv_def)
  have c8: "filter isLogCall (calls (handleExecuteOrganize failedMoveEnv exPreview)) = []"
    using gates [THEN conjunct2, rule_format, of failedMoveEnv
        "\<lparr>success = False, moved_count = 0, errors = [''access denied'']\<rparr>"] g2
    by simp
  show ?thesis
    by (intro conjI h1 h2 h3 h5 c1 c2 c3 c4 c5 c6 g1 c7 g2 c8)
qed

section \<open>Rule synthesis\<close>

text \<open>
  Claim C9. With a stored result, when the token call and the rules call return: if the
  response is ok and has rules, the suggested rules are the rules of the response, each
  with \<open>selected\<close> set, and the dialog is opened; if the response has no rules, the
  status becomes the "no patterns found" message. In both cases the step, the result and
  the scanned files are unchanged: no error state is entered.
\<close>

theorem rules_selected_or_neutral:
  assumes "organizeResult s = Some r"
    and "get_access_token env = Inr accessToken"
    and "generate_rules env (rulesBody s r) = Inr response"
  shows "(rr_ok response \<and> rules response \<noteq> [] \<longrightarrow>
            suggestedRules (run (handleGenerateRules env s) s)
              = map (\<lambda>x. x\<lparr>selected := Some True\<rparr>) (rules response)
          \<and> (\<forall>x\<in>set (suggestedRules (run (handleGenerateRules env s) s)). selected x = Some True)
          \<and> showRulesModal (run (handleGenerateRules env s) s)
          \<and> organizeStatus (run (handleGenerateRules env s) s) = organizeStatus s)
    \<and> (rules response = [] \<longrightarrow>
            organizeStatus (run (handleGenerateRules env s) s) = StNoPatterns
          \<and> suggestedRules (run (handleGenerateRules env s) s) = suggestedRules s
          \<and> showRulesModal (run (handleGenerateRules env s) s) = showRulesModal s)
    \<and> organizeStep (run (handleGenerateRules env s) s) = organizeStep s
    \<and> organizeResult (run (handleGenerateRules env s) s) = Some r
    \<and> scannedFiles (run (handleGenerateRules env s) s) = scannedFiles s"
  using assms by (auto simp: handleGenerateRules_def)

theorem rules_selected_or_neutral_witness:
  "organizeResult exDone = Some exResult
   \<and> get_access_token exEnv = Inr (Some ''token'')
   \<and> generate_rules exEnv (rulesBody exDone exResult) = Inr \<lparr>rr_ok = True, rules = [exRule]\<rparr>
   \<and> suggestedRules (run (handleGenerateRules exEnv exDone) exDone) = [exRule\<lparr>selected := Some True\<rparr>]
   \<and> showRulesModal (run (handleGenerateRules exEnv exDone) exDone)
   \<and> organizeStatus (run (handleGenerateRules exEnv exDone) exDone) = StMoved 3
   \<and> generate_rules noRulesEnv (rulesBody exDone exResult) = Inr \<lparr>rr_ok = True, rules = []\<rparr>
   \<and> organizeStatus (run (handleGenerateRules noRulesEnv exDone) exDone) = StNoPatterns
   \<and> organizeStep (run (handleGenerateRules noRulesEnv exDone) exDone) = Done"
  using rules_selected_or_neutral [of exDone exResult exEnv "Some ''token''" "\<lparr>rr_ok = True, rules = [exRule]\<rparr>"]
    rules_selected_or_neutral [of exDone exResult noRulesEnv "Some ''token''" "\<lparr>rr_ok = True, rules = []\<rparr>"]
  by (simp add: exDone_def exPreview_def exSession_def noRulesEnv_def exEnv_def)


end
